theory Spec2Isabelle
  imports Main
begin

section \<open>Values received from the server\<close>

text \<open>
  The chat page (\<^verbatim>\<open>src/chat/chatpage.jsx\<close>) works on JSON values. A field that the
  code reads through \<^verbatim>\<open>toId\<close> may hold nothing, a string id, or a populated object
  carrying an \<^verbatim>\<open>_id\<close>; these three shapes are the constructors of \<open>idref\<close>. Message
  ids, bodies and timestamps are JSON strings, so \<^verbatim>\<open>String(x)\<close> is the identity on them;
  the empty string stands for a missing (falsy) value.
\<close>

datatype idref = NoRef | StrRef string | ObjRef string

text \<open>\<^verbatim>\<open>toId\<close>: a falsy value gives the empty string, a string is returned as it is, an
  object with a truthy \<^verbatim>\<open>_id\<close> gives that id, and a plain object without one serialises
  to \<^verbatim>\<open>[object Object]\<close>, which is turned into the empty string.\<close>

fun toId :: "idref \<Rightarrow> string" where
  "toId NoRef = ''''"
| "toId (StrRef s) = (if s = '''' then '''' else s)"
| "toId (ObjRef i) = (if i \<noteq> '''' then i else '''')"

definition falsy :: "idref \<Rightarrow> bool" where
  "falsy r = (r = NoRef \<or> r = StrRef '''')"

record reaction =
  reaction_user :: idref
  reaction_emoji :: "string option"

definition normalizeReaction :: "reaction \<Rightarrow> string \<times> string" where
  "normalizeReaction r =
     (toId (reaction_user r), (case reaction_emoji r of None \<Rightarrow> '''' | Some e \<Rightarrow> e))"

record reply_preview =
  reply_id :: string
  reply_senderUserId :: idref
  reply_messageContent :: string
  reply_createdAt :: string

text \<open>The \<^verbatim>\<open>replyTo\<close> field: absent, a bare id (not an object), or the referenced
  message as an object.\<close>

datatype reply_ref = NoReply | ReplyId string | ReplyObj reply_preview

definition normalizeReplyPreview :: "reply_ref \<Rightarrow> reply_preview option" where
  "normalizeReplyPreview replyToMessage =
     (case replyToMessage of
        NoReply \<Rightarrow> None
      | ReplyId _ \<Rightarrow> None
      | ReplyObj obj \<Rightarrow>
          Some \<lparr> reply_id = (if reply_id obj \<noteq> '''' then reply_id obj else ''''),
                 reply_senderUserId =
                   (if falsy (reply_senderUserId obj) then NoRef else reply_senderUserId obj),
                 reply_messageContent = reply_messageContent obj,
                 reply_createdAt = reply_createdAt obj \<rparr>)"

definition stored_reply :: "reply_preview option \<Rightarrow> reply_ref" where
  "stored_reply p = (case p of None \<Rightarrow> NoReply | Some q \<Rightarrow> ReplyObj q)"

text \<open>\<^verbatim>\<open>toId(message.replyTo)\<close>, as the deletion handlers call it.\<close>

fun toId_reply :: "reply_ref \<Rightarrow> string" where
  "toId_reply NoReply = ''''"
| "toId_reply (ReplyId s) = (if s = '''' then '''' else s)"
| "toId_reply (ReplyObj obj) = (if reply_id obj \<noteq> '''' then reply_id obj else '''')"

record message =
  msg_id :: string
  senderUserId :: idref
  receiverUserIdOrRoomId :: idref
  messageContent :: string
  messageType :: string
  readStatus :: bool
  createdAt :: string
  updatedAt :: string
  reactions :: "reaction list option"
  replyTo :: reply_ref

text \<open>
  Objects have identity. The message list never mutates an object in place (every update
  builds a new object with a spread), so an object of the list is modelled as the pair of
  its address and its fields; a new object takes the next address of an allocation counter.
  Two entries are the same reference exactly when their addresses are equal.
\<close>

type_synonym message_obj = "nat \<times> message"

abbreviation obj_id :: "message_obj \<Rightarrow> string" where
  "obj_id m \<equiv> msg_id (snd m)"


section \<open>Message stream reconciler\<close>

text \<open>The loop of \<^verbatim>\<open>areReactionsEqual\<close>, from index \<open>index\<close> on. It is entered only
  when both lists have the same length.\<close>

function areReactionsEqual_loop :: "nat \<Rightarrow> reaction list \<Rightarrow> reaction list \<Rightarrow> bool" where
  "areReactionsEqual_loop index previous nxt =
     (if index < length previous then
        (let left = normalizeReaction (previous ! index);
             right = normalizeReaction (nxt ! index)
         in if fst left \<noteq> fst right \<or> snd left \<noteq> snd right then False
            else areReactionsEqual_loop (index + 1) previous nxt)
      else True)"
  by pat_completeness auto
termination
  by (relation "measure (\<lambda>(index, previous, nxt). length previous - index)") auto

declare areReactionsEqual_loop.simps [simp del]

definition areReactionsEqual :: "reaction list \<Rightarrow> reaction list \<Rightarrow> bool" where
  "areReactionsEqual previous nxt =
     (if length previous \<noteq> length nxt then False
      else areReactionsEqual_loop 0 previous nxt)"

definition reactions_or_empty :: "reaction list option \<Rightarrow> reaction list" where
  "reactions_or_empty rs = (case rs of None \<Rightarrow> [] | Some xs \<Rightarrow> xs)"

definition shouldReuseMessage :: "message option \<Rightarrow> message \<Rightarrow> bool" where
  "shouldReuseMessage previousMessage nextMessage =
     (case previousMessage of
        None \<Rightarrow> False
      | Some previous \<Rightarrow>
          (let previousReply = normalizeReplyPreview (replyTo previous);
               nextReply = normalizeReplyPreview (replyTo nextMessage);
               isReplyEqual =
                 (case (previousReply, nextReply) of
                    (None, None) \<Rightarrow> True
                  | (Some p, Some n) \<Rightarrow>
                      reply_id p = reply_id n \<and>
                      reply_messageContent p = reply_messageContent n \<and>
                      toId (reply_senderUserId p) = toId (reply_senderUserId n) \<and>
                      reply_createdAt p = reply_createdAt n
                  | _ \<Rightarrow> False)
           in msg_id previous = msg_id nextMessage \<and>
              messageContent previous = messageContent nextMessage \<and>
              messageType previous = messageType nextMessage \<and>
              readStatus previous = readStatus nextMessage \<and>
              createdAt previous = createdAt nextMessage \<and>
              updatedAt previous = updatedAt nextMessage \<and>
              toId (senderUserId previous) = toId (senderUserId nextMessage) \<and>
              areReactionsEqual (reactions_or_empty (reactions previous))
                                (reactions_or_empty (reactions nextMessage)) \<and>
              isReplyEqual))"

text \<open>The object both \<^verbatim>\<open>reconcileMessages\<close> and \<^verbatim>\<open>appendRealtimeMessage\<close> build from
  an incoming message: its fields, with the reactions defaulted to the empty array and the
  reply reference reduced to its preview.\<close>

definition normalizeMessage :: "message \<Rightarrow> message" where
  "normalizeMessage m =
     m \<lparr> reactions := Some (case reactions m of Some rs \<Rightarrow> rs | None \<Rightarrow> []),
         replyTo := stored_reply (normalizeReplyPreview (replyTo m)) \<rparr>"

text \<open>\<^verbatim>\<open>new Map(previousMessages.map(m => [String(m._id), m]))\<close>: a later entry with
  the same key replaces an earlier one, so the lookup finds the last message with the id.\<close>

definition previousById :: "message_obj list \<Rightarrow> string \<Rightarrow> message_obj option" where
  "previousById previousMessages =
     map_of (rev (map (\<lambda>m. (obj_id m, m)) previousMessages))"

text \<open>One step of the \<^verbatim>\<open>map\<close> callback; \<open>a\<close> is the address the new object
  \<^verbatim>\<open>normalizedMessage\<close> is allocated at.\<close>

definition reconcile_one ::
  "(string \<Rightarrow> message_obj option) \<Rightarrow> nat \<Rightarrow> message \<Rightarrow> message_obj" where
  "reconcile_one byId a m =
     (let normalizedMessage = (a, normalizeMessage m);
          existing = byId (obj_id normalizedMessage)
      in case existing of
           None \<Rightarrow> normalizedMessage
         | Some e \<Rightarrow>
             if shouldReuseMessage (Some (snd e)) (snd normalizedMessage) then e
             else normalizedMessage)"

fun reconcile_from ::
  "(string \<Rightarrow> message_obj option) \<Rightarrow> nat \<Rightarrow> message list \<Rightarrow> message_obj list" where
  "reconcile_from byId a [] = []"
| "reconcile_from byId a (m # ms) = reconcile_one byId a m # reconcile_from byId (Suc a) ms"

definition reconcileMessages ::
  "nat \<Rightarrow> message_obj list \<Rightarrow> message list \<Rightarrow> message_obj list" where
  "reconcileMessages a previousMessages incomingMessages =
     reconcile_from (previousById previousMessages) a incomingMessages"


subsection \<open>The specification's field equality and normal form\<close>

text \<open>
  The definitions of this subsection follow the words of the specification and use none
  of the functions above; the proofs relate the two sides.

  The id a sender or reaction-user reference stands for: the string itself, the \<^verbatim>\<open>_id\<close>
  of a populated object, nothing for a missing reference.
\<close>

fun ref_id :: "idref \<Rightarrow> string" where
  "ref_id NoRef = []"
| "ref_id (StrRef s) = s"
| "ref_id (ObjRef i) = i"

text \<open>The (user, emoji) pair of a reaction; a reaction without emoji has the empty one.\<close>

definition user_emoji :: "reaction \<Rightarrow> string \<times> string" where
  "user_emoji r =
     (ref_id (reaction_user r), (case reaction_emoji r of None \<Rightarrow> [] | Some e \<Rightarrow> e))"

text \<open>The reaction list of a message; a message without the field has no reactions.\<close>

fun reaction_list :: "reaction list option \<Rightarrow> reaction list" where
  "reaction_list None = []"
| "reaction_list (Some rs) = rs"

text \<open>The reply preview (id, body, sender, timestamp) of a reply reference; only a
  referenced message given as an object has one.\<close>

fun reply_preview_of :: "reply_ref \<Rightarrow> (string \<times> string \<times> string \<times> string) option" where
  "reply_preview_of NoReply = None"
| "reply_preview_of (ReplyId i) = None"
| "reply_preview_of (ReplyObj obj) =
     Some (reply_id obj, reply_messageContent obj, ref_id (reply_senderUserId obj),
           reply_createdAt obj)"

text \<open>
  Field equality: identical id, body, type, read status, created and updated timestamps,
  sender id, reply preview, and reaction lists of the same length whose (user, emoji)
  pairs agree position by position.
\<close>

definition field_equal :: "message \<Rightarrow> message \<Rightarrow> bool" where
  "field_equal p n =
     (msg_id p = msg_id n \<and>
      messageContent p = messageContent n \<and>
      messageType p = messageType n \<and>
      readStatus p = readStatus n \<and>
      createdAt p = createdAt n \<and>
      updatedAt p = updatedAt n \<and>
      ref_id (senderUserId p) = ref_id (senderUserId n) \<and>
      reply_preview_of (replyTo p) = reply_preview_of (replyTo n) \<and>
      length (reaction_list (reactions p)) = length (reaction_list (reactions n)) \<and>
      (\<forall>i \<in> {0..<length (reaction_list (reactions p))}.
         user_emoji (reaction_list (reactions p) ! i) =
         user_emoji (reaction_list (reactions n) ! i)))"

text \<open>
  The freshly normalized version of an incoming message: all its fields as received,
  the reactions as a list (empty when the field is absent), and the reply reference
  reduced to the four fields of the preview (id, sender, body, created timestamp) when
  the referenced message came as an object, no reply otherwise. An empty sender value
  of the preview is stored as null.
\<close>

fun sender_or_null :: "idref \<Rightarrow> idref" where
  "sender_or_null NoRef = NoRef"
| "sender_or_null (StrRef s) = (if s = [] then NoRef else StrRef s)"
| "sender_or_null (ObjRef i) = ObjRef i"

fun preview_only :: "reply_ref \<Rightarrow> reply_ref" where
  "preview_only NoReply = NoReply"
| "preview_only (ReplyId i) = NoReply"
| "preview_only (ReplyObj obj) =
     ReplyObj \<lparr> reply_id = reply_id obj,
                 reply_senderUserId = sender_or_null (reply_senderUserId obj),
                 reply_messageContent = reply_messageContent obj,
                 reply_createdAt = reply_createdAt obj \<rparr>"

definition normalized_version :: "message \<Rightarrow> message" where
  "normalized_version m =
     \<lparr> msg_id = msg_id m,
       senderUserId = senderUserId m,
       receiverUserIdOrRoomId = receiverUserIdOrRoomId m,
       messageContent = messageContent m,
       messageType = messageType m,
       readStatus = readStatus m,
       createdAt = createdAt m,
       updatedAt = updatedAt m,
       reactions = Some (reaction_list (reactions m)),
       replyTo = preview_only (replyTo m) \<rparr>"

text \<open>The in-memory message the reconciler compares an incoming id with: the last entry
  of the list that has this id.\<close>

definition last_with_id :: "string \<Rightarrow> message_obj list \<Rightarrow> message_obj option" where
  "last_with_id k ms =
     (case filter (\<lambda>e. obj_id e = k) ms of [] \<Rightarrow> None | e # es \<Rightarrow> Some (last (e # es)))"


section \<open>Conversation state\<close>

definition buildRoomNotificationKey :: "string \<Rightarrow> string" where
  "buildRoomNotificationKey roomId = ''room:'' @ roomId"

definition buildDmNotificationKey :: "string \<Rightarrow> string" where
  "buildDmNotificationKey userId = ''dm:'' @ userId"

text \<open>
  The part of the component state the message and notification handlers read and write.
  \<open>selectedRoom\<close> and \<open>selectedUser\<close> hold the \<^verbatim>\<open>_id\<close> of the selected object
  (\<open>None\<close> for \<^verbatim>\<open>null\<close>). \<open>unreadCounts\<close> is the object used as a dictionary from
  notification keys to counts. \<open>processedRealtimeMessageIds\<close> is the JavaScript
  \<^verbatim>\<open>Set\<close> of processed ids, kept as the list of its elements in insertion order, which
  is the order a \<^verbatim>\<open>Set\<close> iterates in. \<open>next_addr\<close> is the allocation counter.
\<close>

record chat =
  currentUserId :: string
  selectedRoom :: "string option"
  selectedUser :: "string option"
  messages :: "message_obj list"
  replyToMessage :: "reply_preview option"
  unreadCounts :: "string \<Rightarrow> nat option"
  activeNotificationKeyRef :: string
  processedRealtimeMessageIds :: "string list"
  next_addr :: nat

definition initial_chat :: "string \<Rightarrow> chat" where
  "initial_chat uid =
     \<lparr> currentUserId = uid, selectedRoom = None, selectedUser = None, messages = [],
       replyToMessage = None, unreadCounts = Map.empty, activeNotificationKeyRef = '''',
       processedRealtimeMessageIds = [], next_addr = 0 \<rparr>"

text \<open>The three operations of \<^verbatim>\<open>Set\<close> the code uses.\<close>

definition set_has :: "string \<Rightarrow> string list \<Rightarrow> bool" where
  "set_has x xs = (x \<in> set xs)"

definition set_add :: "string \<Rightarrow> string list \<Rightarrow> string list" where
  "set_add x xs = (if x \<in> set xs then xs else xs @ [x])"

definition set_delete :: "string \<Rightarrow> string list \<Rightarrow> string list" where
  "set_delete x xs = removeAll x xs"

text \<open>\<^verbatim>\<open>selected?._id\<close> as a condition, and as a value.\<close>

definition has_id :: "string option \<Rightarrow> bool" where
  "has_id selected = (case selected of Some i \<Rightarrow> i \<noteq> '''' | None \<Rightarrow> False)"

definition the_id :: "string option \<Rightarrow> string" where
  "the_id selected = (case selected of Some i \<Rightarrow> i | None \<Rightarrow> '''')"

definition activeNotificationKey :: "chat \<Rightarrow> string" where
  "activeNotificationKey s =
     (if has_id (selectedRoom s) then buildRoomNotificationKey (the_id (selectedRoom s))
      else if has_id (selectedUser s) then buildDmNotificationKey (the_id (selectedUser s))
      else '''')"

text \<open>\<^verbatim>\<open>!previous[notificationKey]\<close> holds for a missing entry and for the count 0.\<close>

definition clearUnreadForKey :: "string \<Rightarrow> chat \<Rightarrow> chat" where
  "clearUnreadForKey notificationKey s =
     (if notificationKey = '''' then s
      else (case unreadCounts s notificationKey of
              None \<Rightarrow> s
            | Some c \<Rightarrow>
                if c = 0 then s
                else s \<lparr> unreadCounts := (unreadCounts s)(notificationKey := None) \<rparr>))"

definition getMessageNotificationKey :: "string \<Rightarrow> message \<Rightarrow> string" where
  "getMessageNotificationKey uid m =
     (let senderId = toId (senderUserId m);
          targetId = toId (receiverUserIdOrRoomId m);
          selfUserId = uid
      in if senderId = '''' \<or> targetId = '''' \<or> selfUserId = '''' \<or> senderId = selfUserId
         then ''''
         else if targetId = selfUserId then buildDmNotificationKey senderId
         else buildRoomNotificationKey targetId)"

definition appendRealtimeMessage :: "message \<Rightarrow> chat \<Rightarrow> chat" where
  "appendRealtimeMessage m s =
     (if msg_id m = '''' then s
      else if \<exists>existing \<in> set (messages s). obj_id existing = msg_id m then s
      else s \<lparr> messages := messages s @ [(next_addr s, normalizeMessage m)],
               next_addr := Suc (next_addr s) \<rparr>)"

text \<open>The alert tone and the system notification are calls into the browser; the handlers
  return them as a list of effects.\<close>

datatype effect = PlayNotificationSound | ShowBrowserNotification

definition onNewMessage :: "message \<Rightarrow> bool \<Rightarrow> chat \<Rightarrow> chat \<times> effect list" where
  "onNewMessage incomingMessage isPageFocused s =
     (let messageId = msg_id incomingMessage
      in if messageId = '''' then (s, [])
         else if set_has messageId (processedRealtimeMessageIds s) then (s, [])
         else
           (let added = set_add messageId (processedRealtimeMessageIds s);
                processed =
                  (if length added > 500 then
                     (case added of [] \<Rightarrow> added | oldestId # _ \<Rightarrow> set_delete oldestId added)
                   else added);
                s1 = s \<lparr> processedRealtimeMessageIds := processed \<rparr>;
                notificationKey = getMessageNotificationKey (currentUserId s) incomingMessage
            in if notificationKey = '''' then (s1, [])
               else if notificationKey = activeNotificationKeyRef s1 then
                 (appendRealtimeMessage incomingMessage s1,
                  if \<not> isPageFocused then [PlayNotificationSound, ShowBrowserNotification]
                  else [])
               else
                 (s1 \<lparr> unreadCounts := (unreadCounts s1)
                         (notificationKey \<mapsto>
                            (case unreadCounts s1 notificationKey of None \<Rightarrow> 0 | Some c \<Rightarrow> c) + 1) \<rparr>,
                  [PlayNotificationSound, ShowBrowserNotification])))"

text \<open>A \<^verbatim>\<open>map\<close> whose callback either returns the object it was given or builds a new
  one: \<open>f\<close> gives the fields of the new object, and the new object of position \<open>i\<close> is
  allocated at \<open>a + i\<close>.\<close>

fun update_objs ::
  "(message \<Rightarrow> message option) \<Rightarrow> nat \<Rightarrow> message_obj list \<Rightarrow> message_obj list" where
  "update_objs f a [] = []"
| "update_objs f a (m # ms) =
     (case f (snd m) of None \<Rightarrow> m | Some m' \<Rightarrow> (a, m')) # update_objs f (Suc a) ms"

definition set_reactions :: "string \<Rightarrow> reaction list \<Rightarrow> chat \<Rightarrow> chat" where
  "set_reactions messageId rs s =
     s \<lparr> messages :=
           update_objs (\<lambda>m. if msg_id m \<noteq> messageId then None
                            else Some (m \<lparr> reactions := Some rs \<rparr>))
             (next_addr s) (messages s),
         next_addr := next_addr s + length (messages s) \<rparr>"

definition onReactionUpdated :: "string \<Rightarrow> reaction list option \<Rightarrow> chat \<Rightarrow> chat" where
  "onReactionUpdated messageId payload_reactions s =
     (case payload_reactions of
        None \<Rightarrow> s
      | Some rs \<Rightarrow> if messageId = '''' then s else set_reactions messageId rs s)"

definition remove_message :: "string \<Rightarrow> chat \<Rightarrow> chat" where
  "remove_message deletedMessageId s =
     s \<lparr> messages :=
           update_objs (\<lambda>m. if toId_reply (replyTo m) \<noteq> '''' \<and>
                               toId_reply (replyTo m) = deletedMessageId
                            then Some (m \<lparr> replyTo := NoReply \<rparr>) else None)
             (next_addr s)
             (filter (\<lambda>m. obj_id m \<noteq> deletedMessageId) (messages s)),
         next_addr := next_addr s + length (messages s),
         replyToMessage :=
           (case replyToMessage s of
              None \<Rightarrow> None
            | Some previous \<Rightarrow> if reply_id previous = deletedMessageId then None else Some previous) \<rparr>"

definition onMessageDeleted :: "string \<Rightarrow> chat \<Rightarrow> chat" where
  "onMessageDeleted messageId s = (if messageId = '''' then s else remove_message messageId s)"

definition onConversationCleared :: "string \<Rightarrow> chat \<Rightarrow> chat" where
  "onConversationCleared conversationTargetId s =
     (if conversationTargetId = '''' then s
      else
        (let dmNotificationKey = buildDmNotificationKey conversationTargetId;
             roomNotificationKey = buildRoomNotificationKey conversationTargetId;
             s1 = clearUnreadForKey roomNotificationKey (clearUnreadForKey dmNotificationKey s);
             isActiveConversation =
               (activeNotificationKeyRef s1 = dmNotificationKey \<or>
                activeNotificationKeyRef s1 = roomNotificationKey)
         in if isActiveConversation then s1 \<lparr> messages := [], replyToMessage := None \<rparr>
            else s1))"

text \<open>
  \<^verbatim>\<open>fetchMessages\<close> (lines 1623-1636) runs in two parts. Before the request it reads the
  selection of the render it was created in and either sends one of two requests or
  returns. The second part runs when the response arrives, after an \<^verbatim>\<open>await\<close>: whatever
  has happened in between and whatever is selected by then,
  \<^verbatim>\<open>setMessages((previous) => reconcileMessages(previous, response.data || []))\<close>
  merges the snapshot into the list of that moment. \<open>fetchMessages_request\<close> is the first
  part; \<open>fetchMessages\<close> is the second, \<open>response\<close> being the array
  \<^verbatim>\<open>response.data || []\<close>.
\<close>

datatype request = GetRoomMessages string | GetMessagesBetween string string

definition fetchMessages_request :: "chat \<Rightarrow> request option" where
  "fetchMessages_request s =
     (if has_id (selectedRoom s) then Some (GetRoomMessages (the_id (selectedRoom s)))
      else if has_id (selectedUser s) \<and> currentUserId s \<noteq> '''' then
        Some (GetMessagesBetween (currentUserId s) (the_id (selectedUser s)))
      else None)"

definition fetchMessages :: "message list \<Rightarrow> chat \<Rightarrow> chat" where
  "fetchMessages response s =
     s \<lparr> messages := reconcileMessages (next_addr s) (messages s) response,
         next_addr := next_addr s + length response \<rparr>"

text \<open>
  The effects React runs after a render in which the selection changed, given the state
  \<open>before\<close> the change: the notification-key effect stores the new key in the ref and
  clears its unread entry; the polling effect empties the list when nothing is selected;
  the reply effect dismisses the composer's reply when a selected id changed.
\<close>

definition selection_effects :: "chat \<Rightarrow> chat \<Rightarrow> chat" where
  "selection_effects before s =
     (let s1 = (if activeNotificationKey s \<noteq> activeNotificationKey before then
                  clearUnreadForKey (activeNotificationKey s)
                    (s \<lparr> activeNotificationKeyRef := activeNotificationKey s \<rparr>)
                else s);
          s2 = (if (selectedRoom s \<noteq> selectedRoom before \<or> selectedUser s \<noteq> selectedUser before)
                   \<and> selectedRoom s = None \<and> selectedUser s = None
                then s1 \<lparr> messages := [] \<rparr> else s1)
      in if selectedRoom s \<noteq> selectedRoom before \<or> selectedUser s \<noteq> selectedUser before
         then s2 \<lparr> replyToMessage := None \<rparr> else s2)"

definition selectRoom :: "string \<Rightarrow> chat \<Rightarrow> chat" where
  "selectRoom roomId s =
     (let s1 = clearUnreadForKey (buildRoomNotificationKey roomId) s
      in selection_effects s (s1 \<lparr> selectedRoom := Some roomId, selectedUser := None \<rparr>))"

definition selectUser :: "string \<Rightarrow> chat \<Rightarrow> chat" where
  "selectUser userId s =
     (let s1 = clearUnreadForKey (buildDmNotificationKey userId) s
      in selection_effects s (s1 \<lparr> selectedUser := Some userId, selectedRoom := None \<rparr>))"

definition closeConversation :: "chat \<Rightarrow> chat" where
  "closeConversation s =
     selection_effects s (s \<lparr> selectedRoom := None, selectedUser := None, messages := [] \<rparr>)"

definition removeRoomFromUi :: "string \<Rightarrow> chat \<Rightarrow> chat" where
  "removeRoomFromUi roomId s =
     (if roomId = '''' then s
      else
        (let roomNotificationKey = buildRoomNotificationKey roomId;
             s1 = s \<lparr> selectedRoom :=
                        (case selectedRoom s of
                           None \<Rightarrow> None
                         | Some previous \<Rightarrow> if previous = roomId then None else Some previous) \<rparr>;
             s2 = (case unreadCounts s1 roomNotificationKey of
                     None \<Rightarrow> s1
                   | Some c \<Rightarrow>
                       if c = 0 then s1
                       else s1 \<lparr> unreadCounts := (unreadCounts s1)(roomNotificationKey := None) \<rparr>)
         in selection_effects s s2))"

text \<open>The user's own actions on the open conversation, after the request succeeded.\<close>

definition handleReactToMessage :: "string \<Rightarrow> reaction list \<Rightarrow> chat \<Rightarrow> chat" where
  "handleReactToMessage messageId updatedReactions s = set_reactions messageId updatedReactions s"

definition handleDeleteMessage :: "string \<Rightarrow> chat \<Rightarrow> chat" where
  "handleDeleteMessage messageId s =
     (if messageId = '''' \<or> currentUserId s = '''' then s else remove_message messageId s)"

definition handleClearActiveConversation :: "chat \<Rightarrow> chat" where
  "handleClearActiveConversation s =
     (let conversationTargetId =
            (if has_id (selectedRoom s) then the_id (selectedRoom s) else the_id (selectedUser s))
      in if conversationTargetId = '''' \<or> currentUserId s = '''' then s
         else clearUnreadForKey (buildDmNotificationKey conversationTargetId)
                (clearUnreadForKey (buildRoomNotificationKey conversationTargetId)
                   (s \<lparr> messages := [], replyToMessage := None \<rparr>)))"

text \<open>\<^verbatim>\<open>handleReplyToMessage\<close> puts a preview of the chosen message into the composer;
  the composer's dismiss button and a successful send set it back to \<^verbatim>\<open>null\<close>.\<close>

definition handleReplyToMessage :: "message \<Rightarrow> chat \<Rightarrow> chat" where
  "handleReplyToMessage m s =
     (if msg_id m = '''' then s
      else s \<lparr> replyToMessage :=
                 Some \<lparr> reply_id = msg_id m,
                        reply_senderUserId =
                          (if falsy (senderUserId m) then NoRef else senderUserId m),
                        reply_messageContent = messageContent m,
                        reply_createdAt = createdAt m \<rparr> \<rparr>)"

definition dismissReply :: "chat \<Rightarrow> chat" where
  "dismissReply s = s \<lparr> replyToMessage := None \<rparr>"

text \<open>
  Everything that changes the conversation state, as one event type; \<open>step\<close> applies one
  event and \<open>run\<close> a sequence of them in arrival order. \<open>Polled\<close> is the arrival of a
  response to a request \<^verbatim>\<open>fetchMessages\<close> has sent; it may arrive in any later state.
\<close>

datatype event =
    NewMessage message bool
  | Polled "message list"
  | ReactionUpdated string "reaction list option"
  | MessageDeleted string
  | ConversationCleared string
  | RoomRemoved string
  | SelectRoom string
  | SelectUser string
  | CloseConversation
  | ReactToMessage string "reaction list"
  | DeleteMessage string
  | ClearActiveConversation
  | ReplyToMessage message
  | DismissReply

fun step :: "chat \<Rightarrow> event \<Rightarrow> chat" where
  "step s (NewMessage m focused) = fst (onNewMessage m focused s)"
| "step s (Polled response) = fetchMessages response s"
| "step s (ReactionUpdated messageId rs) = onReactionUpdated messageId rs s"
| "step s (MessageDeleted messageId) = onMessageDeleted messageId s"
| "step s (ConversationCleared target) = onConversationCleared target s"
| "step s (RoomRemoved roomId) = removeRoomFromUi roomId s"
| "step s (SelectRoom roomId) = selectRoom roomId s"
| "step s (SelectUser userId) = selectUser userId s"
| "step s CloseConversation = closeConversation s"
| "step s (ReactToMessage messageId rs) = handleReactToMessage messageId rs s"
| "step s (DeleteMessage messageId) = handleDeleteMessage messageId s"
| "step s ClearActiveConversation = handleClearActiveConversation s"
| "step s (ReplyToMessage m) = handleReplyToMessage m s"
| "step s DismissReply = dismissReply s"

definition run :: "chat \<Rightarrow> event list \<Rightarrow> chat" where
  "run s evs = foldl step s evs"

text \<open>A polled snapshot is well formed when no two of its messages share an id.\<close>

fun snapshot_ok :: "event \<Rightarrow> bool" where
  "snapshot_ok (Polled response) = distinct (map msg_id response)"
| "snapshot_ok _ = True"


section \<open>Call signaling\<close>

datatype call_status = Idle | Incoming | Outgoing | Connecting | Connected

record call_state =
  cs_status :: call_status
  cs_callType :: string
  cs_peerUserId :: string
  cs_peerName :: string
  cs_callId :: string
  cs_error :: string

definition INITIAL_CALL_STATE :: call_state where
  "INITIAL_CALL_STATE =
     \<lparr> cs_status = Idle, cs_callType = ''audio'', cs_peerUserId = '''', cs_peerName = '''',
       cs_callId = '''', cs_error = '''' \<rparr>"

definition normalizeCallType :: "string \<Rightarrow> string" where
  "normalizeCallType t = (if t = ''video'' then ''video'' else ''audio'')"

text \<open>\<^verbatim>\<open>buildCallId\<close> reads the clock and the random generator; the two strings they
  produce are parameters.\<close>

definition buildCallId :: "string \<Rightarrow> string \<Rightarrow> string \<Rightarrow> string" where
  "buildCallId userId now rnd = userId @ ''-'' @ now @ ''-'' @ rnd"

text \<open>A session description as it arrives: \<open>raw_type\<close> and \<open>raw_sdp\<close> are \<open>None\<close> when
  the field is missing or not a string; the description itself is \<open>None\<close> when the payload
  holds no object there.\<close>

record raw_description =
  raw_type :: "string option"
  raw_sdp :: "string option"

record session_description =
  sd_type :: string
  sd_sdp :: string

definition normalizeSessionDescription :: "raw_description option \<Rightarrow> session_description option" where
  "normalizeSessionDescription description =
     (case description of
        None \<Rightarrow> None
      | Some d \<Rightarrow>
          (let type = (case raw_type d of
                         Some t \<Rightarrow> if t = ''offer'' \<or> t = ''answer'' then t else ''''
                       | None \<Rightarrow> '''');
               sdp = (case raw_sdp d of Some x \<Rightarrow> x | None \<Rightarrow> '''')
           in if type = '''' \<or> sdp = '''' then None
              else Some \<lparr> sd_type = type, sd_sdp = sdp \<rparr>))"

text \<open>
  The candidate line is the one string the signaling code trims. JavaScript strings are
  sequences of UTF-16 code units and \<^verbatim>\<open>String.prototype.trim\<close> is defined on them, so
  the line is kept as the list of its code units (numbers below \<open>2 ^ 16\<close>). \<^verbatim>\<open>trim\<close>
  removes from both ends the white space of ECMAScript (tab, vertical tab, form feed,
  U+FEFF and the space separators U+0020, U+00A0, U+1680, U+2000 to U+200A, U+202F,
  U+205F, U+3000) and the line terminators (line feed, carriage return, U+2028, U+2029).
  All of them are single code units.
\<close>

type_synonym js_string = "nat list"

definition is_space :: "nat \<Rightarrow> bool" where
  "is_space c =
     (c \<in> {0x09, 0x0A, 0x0B, 0x0C, 0x0D, 0x20, 0xA0, 0x1680, 0x2028, 0x2029, 0x202F, 0x205F,
            0x3000, 0xFEFF} \<or>
      (0x2000 \<le> c \<and> c \<le> 0x200A))"

definition trim :: "js_string \<Rightarrow> js_string" where
  "trim s = rev (dropWhile is_space (rev (dropWhile is_space s)))"

record raw_candidate =
  raw_candidate :: js_string
  raw_sdpMid :: "string option"
  raw_sdpMLineIndex :: "int option"
  raw_usernameFragment :: "string option"

record ice_candidate =
  candidate :: js_string
  sdpMid :: "string option"
  sdpMLineIndex :: "int option"
  usernameFragment :: "string option"

definition normalizeIceCandidatePayload :: "raw_candidate option \<Rightarrow> ice_candidate option" where
  "normalizeIceCandidatePayload c =
     (case c of
        None \<Rightarrow> None
      | Some serializedCandidate \<Rightarrow>
          (let candidateValue = trim (raw_candidate serializedCandidate)
           in if candidateValue = [] then None
              else Some \<lparr> candidate = candidateValue,
                          sdpMid = raw_sdpMid serializedCandidate,
                          sdpMLineIndex = raw_sdpMLineIndex serializedCandidate,
                          usernameFragment = raw_usernameFragment serializedCandidate \<rparr>))"

text \<open>The roster behind \<^verbatim>\<open>usersRef\<close>.\<close>

record user =
  user_id :: string
  user_displayName :: string
  user_username :: string
  user_name :: string
  user_email :: string

definition getUserDisplayName :: "user option \<Rightarrow> string" where
  "getUserDisplayName u =
     (case u of
        None \<Rightarrow> ''Unknown''
      | Some x \<Rightarrow>
          if user_displayName x \<noteq> '''' then user_displayName x
          else if user_username x \<noteq> '''' then user_username x
          else if user_name x \<noteq> '''' then user_name x
          else if user_email x \<noteq> '''' then user_email x
          else ''Unknown'')"

definition resolvePeerName :: "user list \<Rightarrow> string \<Rightarrow> string \<Rightarrow> string" where
  "resolvePeerName roster peerUserId fallbackName =
     (if fallbackName \<noteq> '''' then fallbackName
      else (case find (\<lambda>u. user_id u = peerUserId) roster of
              Some matchedUser \<Rightarrow> getUserDisplayName (Some matchedUser)
            | None \<Rightarrow>
                if peerUserId \<noteq> '''' then ''User '' @ drop (length peerUserId - 4) peerUserId
                else ''Unknown''))"

text \<open>
  The connection object belongs to the browser. The signaling code reads one property of
  it, \<^verbatim>\<open>remoteDescription\<close>, and calls two of its asynchronous methods. A handler
  returns the method calls it makes, in the order it makes them; each call goes to the
  connection that \<^verbatim>\<open>peerConnectionRef\<close> holds when the handler (or the part of it that
  runs after an \<^verbatim>\<open>await\<close>) reads the ref. Whether the browser accepts a candidate does
  not change the control flow: a rejection is logged.
\<close>

record peer_connection =
  remoteDescription :: "session_description option"

datatype pc_call =
    SetRemoteDescription session_description
  | AddIceCandidate ice_candidate

text \<open>The browser's side of a \<^verbatim>\<open>setRemoteDescription\<close> call that resolves: the
  connection has the description from then on.\<close>

definition setRemoteDescription :: "session_description \<Rightarrow> peer_connection \<Rightarrow> peer_connection" where
  "setRemoteDescription d pc = pc \<lparr> remoteDescription := Some d \<rparr>"

record pending_call =
  pending_fromUserId :: string
  pending_callType :: string
  pending_callId :: string
  pending_offer :: session_description
  pending_peerName :: string

text \<open>The refs and state variables of the call machine. \<open>localStreamRef\<close> and
  \<open>remoteStreamRef\<close> record whether a stream is held.\<close>

record call_session =
  callState :: call_state
  pendingIncomingCallRef :: "pending_call option"
  queuedIceCandidatesRef :: "ice_candidate list"
  activeCallPeerIdRef :: string
  activeCallIdRef :: string
  activeCallTypeRef :: string
  peerConnectionRef :: "peer_connection option"
  localStreamRef :: bool
  remoteStreamRef :: bool
  isMicMuted :: bool
  isCameraOff :: bool
  usersRef :: "user list"

definition initial_call_session :: "user list \<Rightarrow> call_session" where
  "initial_call_session roster =
     \<lparr> callState = INITIAL_CALL_STATE, pendingIncomingCallRef = None,
       queuedIceCandidatesRef = [], activeCallPeerIdRef = '''', activeCallIdRef = '''',
       activeCallTypeRef = ''audio'', peerConnectionRef = None, localStreamRef = False,
       remoteStreamRef = False, isMicMuted = False, isCameraOff = False, usersRef = roster \<rparr>"

text \<open>An outbound \<^verbatim>\<open>call:end\<close> event: addressee, call id (empty for \<^verbatim>\<open>null\<close>) and
  reason.\<close>

datatype outbound = Emit_call_end string string string

definition resetCallSession :: "string \<Rightarrow> bool \<Rightarrow> call_session \<Rightarrow> call_session" where
  "resetCallSession errorMessage skipStateUpdate s =
     (let s1 = s \<lparr> peerConnectionRef := None, localStreamRef := False, remoteStreamRef := False,
                    pendingIncomingCallRef := None, queuedIceCandidatesRef := [],
                    activeCallPeerIdRef := '''', activeCallIdRef := '''',
                    activeCallTypeRef := ''audio'' \<rparr>
      in if skipStateUpdate then s1
         else s1 \<lparr> isMicMuted := False, isCameraOff := False,
                   callState := INITIAL_CALL_STATE \<lparr> cs_error := errorMessage \<rparr> \<rparr>)"

definition endActiveCall ::
  "bool \<Rightarrow> string \<Rightarrow> string \<Rightarrow> bool \<Rightarrow> call_session \<Rightarrow> call_session \<times> outbound list" where
  "endActiveCall notifyPeer reason errorMessage skipStateUpdate s =
     (resetCallSession errorMessage skipStateUpdate s,
      if notifyPeer \<and> activeCallPeerIdRef s \<noteq> ''''
      then [Emit_call_end (activeCallPeerIdRef s) (activeCallIdRef s) reason] else [])"

text \<open>
  \<^verbatim>\<open>flushQueuedIceCandidates\<close> copies the queue and empties the ref at once; then its loop
  calls \<^verbatim>\<open>addIceCandidate\<close> on the connection it read at the start, once per copied
  candidate, and awaits each call (a rejection is logged) before it makes the next. The
  loop writes no ref and no state, so emptying the queue is the only state change of the
  flush, and it is made before the first call. Handlers of other events can run while a
  call is awaited; what they call falls between the calls listed here.
\<close>

fun add_queued :: "ice_candidate list \<Rightarrow> pc_call list" where
  "add_queued [] = []"
| "add_queued (c # cs) = AddIceCandidate c # add_queued cs"

definition flushQueuedIceCandidates :: "call_session \<Rightarrow> call_session \<times> pc_call list" where
  "flushQueuedIceCandidates s =
     (case peerConnectionRef s of
        None \<Rightarrow> (s, [])
      | Some peerConnection \<Rightarrow>
          if remoteDescription peerConnection = None then (s, [])
          else
            (let queuedCandidates = queuedIceCandidatesRef s
             in (s \<lparr> queuedIceCandidatesRef := [] \<rparr>, add_queued queuedCandidates)))"

record offer_payload =
  offer_fromUserId :: string
  offer_offer :: "raw_description option"
  offer_callType :: string
  offer_callId :: string
  offer_fromUserName :: string

definition hasActiveCall :: "call_session \<Rightarrow> bool" where
  "hasActiveCall s =
     (pendingIncomingCallRef s \<noteq> None \<or> activeCallPeerIdRef s \<noteq> '''' \<or>
      peerConnectionRef s \<noteq> None)"

definition onCallOffer ::
  "string \<Rightarrow> string \<Rightarrow> offer_payload \<Rightarrow> call_session \<Rightarrow> call_session \<times> outbound list" where
  "onCallOffer now rnd payload s =
     (let fromUserId = offer_fromUserId payload
      in case normalizeSessionDescription (offer_offer payload) of
           None \<Rightarrow> (s, [])
         | Some normalizedOffer \<Rightarrow>
             if fromUserId = '''' then (s, [])
             else
               (let incomingCallType = normalizeCallType (offer_callType payload);
                    incomingCallId =
                      (if offer_callId payload \<noteq> '''' then offer_callId payload
                       else buildCallId fromUserId now rnd);
                    peerName = resolvePeerName (usersRef s) fromUserId (offer_fromUserName payload)
                in if hasActiveCall s then
                     (s, [Emit_call_end fromUserId incomingCallId ''busy''])
                   else
                     (s \<lparr> queuedIceCandidatesRef := [],
                          pendingIncomingCallRef :=
                            Some \<lparr> pending_fromUserId = fromUserId,
                                   pending_callType = incomingCallType,
                                   pending_callId = incomingCallId,
                                   pending_offer = normalizedOffer,
                                   pending_peerName = peerName \<rparr>,
                          activeCallPeerIdRef := fromUserId,
                          activeCallIdRef := incomingCallId,
                          activeCallTypeRef := incomingCallType,
                          callState :=
                            \<lparr> cs_status = Incoming, cs_callType = incomingCallType,
                              cs_peerUserId = fromUserId, cs_peerName = peerName,
                              cs_callId = incomingCallId, cs_error = '''' \<rparr> \<rparr>,
                      [])))"

text \<open>The test the answer, candidate and end handlers start with: the event is for another
  call when it carries a call id, a call id is active, and the two differ.\<close>

definition other_call :: "string \<Rightarrow> call_session \<Rightarrow> bool" where
  "other_call payloadCallId s =
     (payloadCallId \<noteq> '''' \<and> activeCallIdRef s \<noteq> '''' \<and> payloadCallId \<noteq> activeCallIdRef s)"

record answer_payload =
  answer_callId :: string
  answer_answer :: "raw_description option"

text \<open>
  \<^verbatim>\<open>onCallAnswer\<close> is an \<^verbatim>\<open>async\<close> function with two \<^verbatim>\<open>await\<close>s; the code between
  them runs at different times, each part on the state of its own moment.

  \<^item> \<open>onCallAnswer\<close> is the part that runs when the event arrives: the tests, and the call
    \<^verbatim>\<open>peerConnection.setRemoteDescription(normalizedAnswer)\<close>. It writes nothing.
  \<^item> \<open>onCallAnswer_resolved\<close> runs when that call has resolved: it starts the flush.
  \<^item> \<open>onCallAnswer_flushed\<close> runs when the flush has finished: the functional update of
    \<^verbatim>\<open>setCallState\<close>, applied to the call state of that moment.
  \<^item> \<open>onCallAnswer_rejected\<close> is the \<^verbatim>\<open>catch\<close> block, which runs instead of the last two
    when the browser rejects the description.
\<close>

definition onCallAnswer :: "answer_payload \<Rightarrow> call_session \<Rightarrow> call_session \<times> pc_call list" where
  "onCallAnswer payload s =
     (if other_call (answer_callId payload) s then (s, [])
      else
        (case peerConnectionRef s of
           None \<Rightarrow> (s, [])
         | Some peerConnection \<Rightarrow>
             (case normalizeSessionDescription (answer_answer payload) of
                None \<Rightarrow> (s, [])
              | Some normalizedAnswer \<Rightarrow> (s, [SetRemoteDescription normalizedAnswer]))))"

definition onCallAnswer_resolved :: "call_session \<Rightarrow> call_session \<times> pc_call list" where
  "onCallAnswer_resolved s = flushQueuedIceCandidates s"

definition onCallAnswer_flushed :: "call_session \<Rightarrow> call_session" where
  "onCallAnswer_flushed s =
     s \<lparr> callState :=
           (let previous = callState s
            in if cs_status previous = Incoming then previous
               else previous \<lparr> cs_status := Connecting \<rparr>) \<rparr>"

definition onCallAnswer_rejected :: "call_session \<Rightarrow> call_session \<times> outbound list" where
  "onCallAnswer_rejected s = endActiveCall False ''ended'' ''Failed to connect call.'' False s"

record ice_payload =
  ice_callId :: string
  ice_candidate :: "raw_candidate option"

text \<open>\<open>constructible\<close> tells whether the browser's \<^verbatim>\<open>RTCIceCandidate\<close> constructor
  accepts the normalized candidate; when it throws, the handler's \<^verbatim>\<open>catch\<close> logs the
  error and the candidate is neither queued nor applied. The call of
  \<^verbatim>\<open>addIceCandidate\<close> is the handler's last action.\<close>

definition onCallIceCandidate ::
  "(ice_candidate \<Rightarrow> bool) \<Rightarrow> ice_payload \<Rightarrow> call_session \<Rightarrow> call_session \<times> pc_call list" where
  "onCallIceCandidate constructible payload s =
     (case normalizeIceCandidatePayload (ice_candidate payload) of
        None \<Rightarrow> (s, [])
      | Some normalizedCandidate \<Rightarrow>
          if other_call (ice_callId payload) s then (s, [])
          else if \<not> constructible normalizedCandidate then (s, [])
          else
            (case peerConnectionRef s of
               None \<Rightarrow>
                 (s \<lparr> queuedIceCandidatesRef := queuedIceCandidatesRef s @ [normalizedCandidate] \<rparr>,
                  [])
             | Some peerConnection \<Rightarrow>
                 if remoteDescription peerConnection = None then
                   (s \<lparr> queuedIceCandidatesRef := queuedIceCandidatesRef s @ [normalizedCandidate] \<rparr>,
                    [])
                 else (s, [AddIceCandidate normalizedCandidate])))"

text \<open>A sequence of candidate events, handled one after the other in arrival order; the
  calls they make are collected in the order they are made.\<close>

fun onCallIceCandidates ::
  "(ice_candidate \<Rightarrow> bool) \<Rightarrow> ice_payload list \<Rightarrow> call_session \<Rightarrow> call_session \<times> pc_call list" where
  "onCallIceCandidates constructible [] s = (s, [])"
| "onCallIceCandidates constructible (payload # payloads) s =
     (let (s1, calls1) = onCallIceCandidate constructible payload s;
          (s2, calls2) = onCallIceCandidates constructible payloads s1
      in (s2, calls1 @ calls2))"


section \<open>Invariants and predicates of the specification\<close>

text \<open>The three invariants the conversation state keeps along every run.\<close>

definition inv_messages :: "chat \<Rightarrow> bool" where
  "inv_messages s = distinct (map obj_id (messages s))"

definition inv_cache :: "chat \<Rightarrow> bool" where
  "inv_cache s =
     (distinct (processedRealtimeMessageIds s) \<and> length (processedRealtimeMessageIds s) \<le> 500)"

definition inv_unread :: "chat \<Rightarrow> bool" where
  "inv_unread s =
     ((\<forall>k c. unreadCounts s k = Some c \<longrightarrow> 0 < c) \<and>
      unreadCounts s '''' = None \<and>
      activeNotificationKeyRef s = activeNotificationKey s \<and>
      unreadCounts s (activeNotificationKeyRef s) = None)"

text \<open>A session description is well formed when its type is exactly \<^verbatim>\<open>offer\<close> or
  \<^verbatim>\<open>answer\<close> and its sdp is a non-empty string.\<close>

definition well_formed_description :: "raw_description option \<Rightarrow> bool" where
  "well_formed_description description =
     (case description of
        None \<Rightarrow> False
      | Some d \<Rightarrow>
          (raw_type d = Some ''offer'' \<or> raw_type d = Some ''answer'') \<and>
          (case raw_sdp d of None \<Rightarrow> False | Some sdp \<Rightarrow> sdp \<noteq> ''''))"

text \<open>The remote description of the connection is not set: there is no connection object,
  or the one there has no remote description.\<close>

definition remote_description_unset :: "call_session \<Rightarrow> bool" where
  "remote_description_unset s =
     (case peerConnectionRef s of None \<Rightarrow> True | Some pc \<Rightarrow> remoteDescription pc = None)"

text \<open>The eviction step of the message handler, on the cache after the insertion.\<close>

definition evict :: "string list \<Rightarrow> string list" where
  "evict added =
     (if length added > 500 then
        (case added of [] \<Rightarrow> added | oldestId # _ \<Rightarrow> set_delete oldestId added)
      else added)"


text \<open>Every object of the list was allocated before the counter's present value.\<close>

definition inv_addr :: "chat \<Rightarrow> bool" where
  "inv_addr s = (\<forall>e \<in> set (messages s). fst e < next_addr s)"

text \<open>Every entry of the unread counter map counts at least one message.\<close>

definition positive_counts :: "chat \<Rightarrow> bool" where
  "positive_counts s = (\<forall>k c. unreadCounts s k = Some c \<longrightarrow> 0 < c)"

text \<open>
  The candidate a \<^verbatim>\<open>call:ice-candidate\<close> event brings, written without the functions of
  the code: the candidate line of the payload without the white space at its two ends,
  with the three optional fields as received. An event brings none when its payload has
  no candidate object, when the line is blank, or when the browser does not construct a
  candidate from it. \<open>white\<close> lists the code points ECMAScript treats as white space or
  line terminator.
\<close>

definition white :: "nat set" where
  "white = {9, 10, 11, 12, 13, 32, 160, 5760} \<union> {8192..8202} \<union>
           {8232, 8233, 8239, 8287, 12288, 65279}"

fun strip_front :: "nat list \<Rightarrow> nat list" where
  "strip_front [] = []"
| "strip_front (c # cs) = (if c \<in> white then strip_front cs else c # cs)"

definition stripped :: "nat list \<Rightarrow> nat list" where
  "stripped line = rev (strip_front (rev (strip_front line)))"

definition event_candidate :: "(ice_candidate \<Rightarrow> bool) \<Rightarrow> ice_payload \<Rightarrow> ice_candidate option" where
  "event_candidate constructible payload =
     (case ice_candidate payload of
        None \<Rightarrow> None
      | Some received \<Rightarrow>
          if stripped (raw_candidate received) = [] then None
          else if constructible
                    \<lparr> candidate = stripped (raw_candidate received),
                      sdpMid = raw_sdpMid received,
                      sdpMLineIndex = raw_sdpMLineIndex received,
                      usernameFragment = raw_usernameFragment received \<rparr>
          then Some \<lparr> candidate = stripped (raw_candidate received),
                      sdpMid = raw_sdpMid received,
                      sdpMLineIndex = raw_sdpMLineIndex received,
                      usernameFragment = raw_usernameFragment received \<rparr>
          else None)"

text \<open>An event is for the active call when its call id is the active one; an event
  without call id, or one that arrives while no call id is active, is taken as such too.\<close>

definition for_active_call :: "string \<Rightarrow> call_session \<Rightarrow> bool" where
  "for_active_call callId s = (callId = [] \<or> activeCallIdRef s = [] \<or> callId = activeCallIdRef s)"


section \<open>Example values\<close>

text \<open>Concrete messages, events and call sessions, used where a statement is instantiated.\<close>

definition text_message :: "string \<Rightarrow> string \<Rightarrow> string \<Rightarrow> string \<Rightarrow> message" where
  "text_message i sender target body =
     \<lparr> msg_id = i, senderUserId = StrRef sender, receiverUserIdOrRoomId = StrRef target,
       messageContent = body, messageType = ''text'', readStatus = False,
       createdAt = ''2024-05-01T10:00:00Z'', updatedAt = ''2024-05-01T10:00:00Z'',
       reactions = None, replyTo = NoReply \<rparr>"

text \<open>The user \<^verbatim>\<open>me\<close> has the room \<^verbatim>\<open>r1\<close> open and has received \<^verbatim>\<open>m1\<close> there by push.\<close>

definition room_open :: chat where
  "room_open =
     run (initial_chat ''me'')
       [SelectRoom ''r1'', NewMessage (text_message ''m1'' ''u2'' ''r1'' ''hi'') True]"

text \<open>500 distinct ids: \<^verbatim>\<open>x\<close>, \<^verbatim>\<open>xx\<close>, \<^verbatim>\<open>xxx\<close> and so on, and the pushes that bring them.\<close>

definition many_ids :: "string list" where
  "many_ids = map (\<lambda>n. replicate (Suc n) CHR ''x'') [0..<500]"

definition many_pushes :: "event list" where
  "many_pushes = map (\<lambda>i. NewMessage (text_message i ''u2'' ''r1'' ''hi'') True) many_ids"

text \<open>A caller's session after the offer went out: a connection without remote
  description, the status already \<^verbatim>\<open>connecting\<close>.\<close>

definition calling_session :: call_session where
  "calling_session =
     (initial_call_session [])
       \<lparr> callState :=
           \<lparr> cs_status = Connecting, cs_callType = ''audio'', cs_peerUserId = ''u2'',
             cs_peerName = ''Bo'', cs_callId = ''me-1-abc'', cs_error = '''' \<rparr>,
         activeCallPeerIdRef := ''u2'', activeCallIdRef := ''me-1-abc'',
         peerConnectionRef := Some \<lparr> remoteDescription = None \<rparr>,
         localStreamRef := True \<rparr>"

definition offer_from :: "string \<Rightarrow> string option \<Rightarrow> offer_payload" where
  "offer_from sender sdp =
     \<lparr> offer_fromUserId = sender,
       offer_offer = Some \<lparr> raw_type = Some ''offer'', raw_sdp = sdp \<rparr>,
       offer_callType = ''video'', offer_callId = ''u3-7-xyz'', offer_fromUserName = ''Cy'' \<rparr>"

text \<open>A callee's session with a pending incoming offer.\<close>

definition ringing_session :: call_session where
  "ringing_session =
     fst (onCallOffer ''1714557600000'' ''k3j9qa'' (offer_from ''u3'' (Some ''v=0''))
            (initial_call_session []))"

text \<open>The code units of an ASCII string.\<close>

definition units :: "string \<Rightarrow> js_string" where
  "units s = map of_char s"

definition ice_event :: "string \<Rightarrow> js_string \<Rightarrow> ice_payload" where
  "ice_event cid c =
     \<lparr> ice_callId = cid,
       ice_candidate =
         Some \<lparr> raw_candidate = c, raw_sdpMid = Some ''0'', raw_sdpMLineIndex = Some 0,
                raw_usernameFragment = None \<rparr> \<rparr>"

definition ice :: "js_string \<Rightarrow> ice_candidate" where
  "ice c = \<lparr> candidate = c, sdpMid = Some ''0'', sdpMLineIndex = Some 0, usernameFragment = None \<rparr>"

definition answer_with :: "string \<Rightarrow> string \<Rightarrow> answer_payload" where
  "answer_with cid sdp =
     \<lparr> answer_callId = cid,
       answer_answer = Some \<lparr> raw_type = Some ''answer'', raw_sdp = Some sdp \<rparr> \<rparr>"

text \<open>The caller's session with one candidate queued before the answer.\<close>

definition queued_session :: call_session where
  "queued_session = calling_session \<lparr> queuedIceCandidatesRef := [ice (units ''a'')] \<rparr>"

text \<open>The same caller's session while the offer is still ringing at the peer: the status
  is \<^verbatim>\<open>outgoing\<close>, two candidates wait in the queue.\<close>

definition outgoing_session :: call_session where
  "outgoing_session =
     calling_session
       \<lparr> callState := (callState calling_session) \<lparr> cs_status := Outgoing \<rparr>,
         queuedIceCandidatesRef := [ice (units ''a''), ice (units ''b'')],
         isMicMuted := True \<rparr>"

text \<open>
  A message with a populated sender, two reactions and a reply reference, as the server
  sends it, and the same message as a later poll may send it: the sender and the first
  reaction's user as plain ids, the second reaction with an empty emoji instead of none,
  the sender of the referenced message missing instead of empty.
\<close>

definition rich_message :: message where
  "rich_message =
     \<lparr> msg_id = ''m5'', senderUserId = ObjRef ''u2'', receiverUserIdOrRoomId = StrRef ''r1'',
       messageContent = ''look'', messageType = ''text'', readStatus = True,
       createdAt = ''2024-05-01T10:05:00Z'', updatedAt = ''2024-05-01T10:06:00Z'',
       reactions =
         Some [\<lparr> reaction_user = ObjRef ''u3'', reaction_emoji = Some ''+1'' \<rparr>,
               \<lparr> reaction_user = StrRef ''me'', reaction_emoji = None \<rparr>],
       replyTo =
         ReplyObj \<lparr> reply_id = ''m1'', reply_senderUserId = StrRef [],
                    reply_messageContent = ''hi'', reply_createdAt = ''2024-05-01T10:00:00Z'' \<rparr> \<rparr>"

definition rich_message_again :: message where
  "rich_message_again =
     \<lparr> msg_id = ''m5'', senderUserId = StrRef ''u2'', receiverUserIdOrRoomId = StrRef ''r1'',
       messageContent = ''look'', messageType = ''text'', readStatus = True,
       createdAt = ''2024-05-01T10:05:00Z'', updatedAt = ''2024-05-01T10:06:00Z'',
       reactions =
         Some [\<lparr> reaction_user = StrRef ''u3'', reaction_emoji = Some ''+1'' \<rparr>,
               \<lparr> reaction_user = ObjRef ''me'', reaction_emoji = Some [] \<rparr>],
       replyTo =
         ReplyObj \<lparr> reply_id = ''m1'', reply_senderUserId = NoRef,
                    reply_messageContent = ''hi'', reply_createdAt = ''2024-05-01T10:00:00Z'' \<rparr> \<rparr>"

text \<open>The object the list holds for \<^verbatim>\<open>rich_message\<close>.\<close>

definition rich_stored :: message where
  "rich_stored =
     \<lparr> msg_id = ''m5'', senderUserId = ObjRef ''u2'', receiverUserIdOrRoomId = StrRef ''r1'',
       messageContent = ''look'', messageType = ''text'', readStatus = True,
       createdAt = ''2024-05-01T10:05:00Z'', updatedAt = ''2024-05-01T10:06:00Z'',
       reactions =
         Some [\<lparr> reaction_user = ObjRef ''u3'', reaction_emoji = Some ''+1'' \<rparr>,
               \<lparr> reaction_user = StrRef ''me'', reaction_emoji = None \<rparr>],
       replyTo =
         ReplyObj \<lparr> reply_id = ''m1'', reply_senderUserId = NoRef,
                    reply_messageContent = ''hi'', reply_createdAt = ''2024-05-01T10:00:00Z'' \<rparr> \<rparr>"

text \<open>A second message of the room, without reactions field and with a bare id as reply
  reference; a later poll brings it with one reaction.\<close>

definition plain_message :: message where
  "plain_message =
     \<lparr> msg_id = ''m6'', senderUserId = StrRef ''u3'', receiverUserIdOrRoomId = StrRef ''r1'',
       messageContent = ''nice'', messageType = ''text'', readStatus = False,
       createdAt = ''2024-05-01T10:07:00Z'', updatedAt = ''2024-05-01T10:07:00Z'',
       reactions = None, replyTo = ReplyId ''m5'' \<rparr>"

definition plain_message_reacted :: message where
  "plain_message_reacted =
     plain_message \<lparr> reactions := Some [\<lparr> reaction_user = StrRef ''me'', reaction_emoji = Some ''ok'' \<rparr>] \<rparr>"

text \<open>The room \<^verbatim>\<open>r1\<close> is open and the first poll has brought the two messages.\<close>

definition rich_open :: chat where
  "rich_open = run (initial_chat ''me'') [SelectRoom ''r1'', Polled [rich_message, plain_message]]"

text \<open>A poll that lists the message \<^verbatim>\<open>m1\<close> twice, with two bodies.\<close>

definition twice_listed :: chat where
  "twice_listed =
     run (initial_chat ''me'')
       [SelectRoom ''r1'',
        Polled [text_message ''m1'' ''u2'' ''r1'' ''a'', text_message ''m1'' ''u2'' ''r1'' ''b'']]"

text \<open>
  The message \<^verbatim>\<open>x\<close> is pushed into the open room \<^verbatim>\<open>r1\<close>; 499 further messages are
  pushed to the room \<^verbatim>\<open>r2\<close>, which fills the cache; a poll returns an empty snapshot; the
  message \<^verbatim>\<open>new\<close> is pushed into \<^verbatim>\<open>r1\<close>.
\<close>

definition eviction_events :: "event list" where
  "eviction_events =
     [SelectRoom ''r1'', NewMessage (text_message ''x'' ''u2'' ''r1'' ''hi'') True] @
     map (\<lambda>i. NewMessage (text_message i ''u2'' ''r2'' ''hi'') True) (tl many_ids) @
     [Polled [], NewMessage (text_message ''new'' ''u2'' ''r1'' ''hi'') True]"

text \<open>The room \<^verbatim>\<open>x1\<close> is open with one message; the user whose id is also \<^verbatim>\<open>x1\<close>
  has sent a direct message, counted as unread; and the user has chosen to reply to the
  message \<^verbatim>\<open>m1\<close>.\<close>

definition replying :: chat where
  "replying =
     run (initial_chat ''me'')
       [SelectRoom ''x1'',
        NewMessage (text_message ''m1'' ''u2'' ''x1'' ''hi'') True,
        NewMessage (text_message ''m2'' ''x1'' ''me'' ''psst'') True,
        ReplyToMessage (text_message ''m1'' ''u2'' ''x1'' ''hi'')]"



section \<open>Proofs\<close>


lemma areReactionsEqual_loop_iff:
  "length previous = length nxt \<Longrightarrow>
   areReactionsEqual_loop index previous nxt =
     (\<forall>j. index \<le> j \<and> j < length previous \<longrightarrow>
          normalizeReaction (previous ! j) = normalizeReaction (nxt ! j))"
proof (induction index previous nxt rule: areReactionsEqual_loop.induct)
  case (1 index previous nxt)
  show ?case
  proof (cases "index < length previous")
    case False
    then show ?thesis by (subst areReactionsEqual_loop.simps) auto
  next
    case True
    show ?thesis
    proof (cases "normalizeReaction (previous ! index) = normalizeReaction (nxt ! index)")
      case False
      with True show ?thesis
        by (subst areReactionsEqual_loop.simps) (auto simp: prod_eq_iff Let_def)
    next
      case eq: True
      have ih: "areReactionsEqual_loop (index + 1) previous nxt =
          (\<forall>j. index + 1 \<le> j \<and> j < length previous \<longrightarrow>
               normalizeReaction (previous ! j) = normalizeReaction (nxt ! j))"
        using "1.IH" [OF True refl refl] eq "1.prems" by simp
      have "(\<forall>j. index \<le> j \<and> j < length previous \<longrightarrow>
               normalizeReaction (previous ! j) = normalizeReaction (nxt ! j)) =
            (\<forall>j. index + 1 \<le> j \<and> j < length previous \<longrightarrow>
               normalizeReaction (previous ! j) = normalizeReaction (nxt ! j))"
        using eq by (metis Suc_eq_plus1 Suc_leI le_neq_implies_less Suc_leD)
      with ih True eq show ?thesis
        by (subst areReactionsEqual_loop.simps) (simp add: Let_def)
    qed
  qed
qed

lemma areReactionsEqual_iff:
  "areReactionsEqual previous nxt =
     (map normalizeReaction previous = map normalizeReaction nxt)"
  by (auto simp: areReactionsEqual_def areReactionsEqual_loop_iff list_eq_iff_nth_eq)

lemma toId_falsy [simp]: "toId (if falsy r then NoRef else r) = toId r"
  by (cases r) (simp_all add: falsy_def)

lemma toId_idem [simp]: "(if s \<noteq> [] then s else []) = (s::string)"
  by simp

lemma normalizeReplyPreview_simps [simp]:
  "normalizeReplyPreview NoReply = None"
  "normalizeReplyPreview (ReplyId i) = None"
  "normalizeReplyPreview (ReplyObj obj) =
     Some \<lparr> reply_id = reply_id obj,
            reply_senderUserId = (if falsy (reply_senderUserId obj) then NoRef else reply_senderUserId obj),
            reply_messageContent = reply_messageContent obj,
            reply_createdAt = reply_createdAt obj \<rparr>"
  by (simp_all add: normalizeReplyPreview_def)

text \<open>The functions of the code agree with the specification's notions.\<close>

lemma toId_ref_id: "toId r = ref_id r"
  by (cases r) simp_all

lemma normalizeReaction_user_emoji: "normalizeReaction r = user_emoji r"
  by (simp add: normalizeReaction_def user_emoji_def toId_ref_id split: option.splits)

lemma reactions_or_empty_reaction_list: "reactions_or_empty rs = reaction_list rs"
  by (cases rs) (simp_all add: reactions_or_empty_def)

lemma ref_id_sender_or_null [simp]: "ref_id (sender_or_null r) = ref_id r"
  by (cases r) simp_all

lemma falsy_sender_or_null: "(if falsy r then NoRef else r) = sender_or_null r"
  by (cases r) (simp_all add: falsy_def)

lemma stored_reply_preview_only:
  "stored_reply (normalizeReplyPreview r) = preview_only r"
  by (cases r) (simp_all add: stored_reply_def falsy_sender_or_null)

lemma normalizeMessage_normalized_version: "normalizeMessage m = normalized_version m"
  by (cases m)
    (simp add: normalizeMessage_def normalized_version_def stored_reply_preview_only
      split: option.splits)

lemma reply_equal_iff:
  "(case (normalizeReplyPreview (replyTo p), normalizeReplyPreview (replyTo n)) of
      (None, None) \<Rightarrow> True
    | (Some a, Some b) \<Rightarrow>
        reply_id a = reply_id b \<and> reply_messageContent a = reply_messageContent b \<and>
        toId (reply_senderUserId a) = toId (reply_senderUserId b) \<and>
        reply_createdAt a = reply_createdAt b
    | _ \<Rightarrow> False) = (reply_preview_of (replyTo p) = reply_preview_of (replyTo n))"
proof (cases "replyTo p")
  case NoReply
  then show ?thesis by (cases "replyTo n") simp_all
next
  case (ReplyId x)
  then show ?thesis by (cases "replyTo n") simp_all
next
  case (ReplyObj a)
  then show ?thesis
    by (cases "replyTo n") (auto simp: toId_ref_id falsy_sender_or_null)
qed

lemma reactions_equal_iff:
  "areReactionsEqual (reactions_or_empty (reactions p)) (reactions_or_empty (reactions n)) =
     (length (reaction_list (reactions p)) = length (reaction_list (reactions n)) \<and>
      (\<forall>i \<in> {0..<length (reaction_list (reactions p))}.
         user_emoji (reaction_list (reactions p) ! i) =
         user_emoji (reaction_list (reactions n) ! i)))"
proof -
  define ps where "ps = reaction_list (reactions p)"
  define ns where "ns = reaction_list (reactions n)"
  have "(map user_emoji ps = map user_emoji ns) =
        (length (map user_emoji ps) = length (map user_emoji ns) \<and>
         (\<forall>i < length (map user_emoji ps). map user_emoji ps ! i = map user_emoji ns ! i))"
    by (rule list_eq_iff_nth_eq)
  also have "\<dots> = (length ps = length ns \<and>
      (\<forall>i \<in> {0..<length ps}. user_emoji (ps ! i) = user_emoji (ns ! i)))"
    by (auto simp: Ball_def)
  finally have "areReactionsEqual ps ns =
      (length ps = length ns \<and> (\<forall>i \<in> {0..<length ps}. user_emoji (ps ! i) = user_emoji (ns ! i)))"
    by (simp only: areReactionsEqual_iff normalizeReaction_user_emoji [abs_def])
  then show ?thesis
    by (simp only: ps_def ns_def reactions_or_empty_reaction_list)
qed

lemma shouldReuseMessage_iff:
  "shouldReuseMessage (Some p) n = field_equal p n"
  by (simp only: shouldReuseMessage_def field_equal_def option.case Let_def reply_equal_iff
        reactions_equal_iff)
     (simp only: toId_ref_id, blast)

lemma length_reconcile_from: "length (reconcile_from byId a ms) = length ms"
  by (induction ms arbitrary: a) auto

lemma nth_reconcile_from:
  "i < length ms \<Longrightarrow> reconcile_from byId a ms ! i = reconcile_one byId (a + i) (ms ! i)"
proof (induction ms arbitrary: a i)
  case Nil
  then show ?case by simp
next
  case (Cons m ms)
  then show ?case by (cases i) auto
qed

lemma msg_id_normalizeMessage: "msg_id (normalizeMessage m) = msg_id m"
  by (simp add: normalizeMessage_def)

lemma obj_id_reconcile_one: "obj_id (reconcile_one byId a m) = msg_id m"
  by (auto simp: reconcile_one_def Let_def shouldReuseMessage_iff field_equal_def
      msg_id_normalizeMessage split: option.splits)

lemma ids_reconcile_from: "map obj_id (reconcile_from byId a ms) = map msg_id ms"
  by (induction ms arbitrary: a) (auto simp: obj_id_reconcile_one)

lemma previousById_SomeD:
  "previousById prev k = Some e \<Longrightarrow> e \<in> set prev \<and> obj_id e = k"
  unfolding previousById_def by (auto dest!: map_of_SomeD)

lemma previousById_None: "previousById prev k = None \<longleftrightarrow> k \<notin> obj_id ` set prev"
  unfolding previousById_def by (auto simp: map_of_eq_None_iff image_iff)

lemma previousById_distinct:
  assumes "distinct (map obj_id prev)" "e \<in> set prev"
  shows "previousById prev (obj_id e) = Some e"
proof -
  have "distinct (map fst (rev (map (\<lambda>m. (obj_id m, m)) prev)))"
    using assms(1) by (simp add: rev_map [symmetric] comp_def)
  moreover have "(obj_id e, e) \<in> set (rev (map (\<lambda>m. (obj_id m, m)) prev))"
    using assms(2) by auto
  ultimately show ?thesis unfolding previousById_def by (rule map_of_is_SomeI)
qed

lemma last_with_id_alt:
  "last_with_id k ms =
     (if filter (\<lambda>e. obj_id e = k) ms = [] then None
      else Some (last (filter (\<lambda>e. obj_id e = k) ms)))"
  by (cases "filter (\<lambda>e. obj_id e = k) ms") (simp_all add: last_with_id_def)

lemma last_with_id_snoc:
  "last_with_id k (ms @ [m]) = (if obj_id m = k then Some m else last_with_id k ms)"
  by (simp add: last_with_id_alt)

lemma previousById_last_with_id: "previousById prev k = last_with_id k prev"
proof (induction prev rule: rev_induct)
  case Nil
  then show ?case by (simp add: previousById_def last_with_id_def)
next
  case (snoc m ms)
  have "previousById (ms @ [m]) k = (if obj_id m = k then Some m else previousById ms k)"
    by (simp add: previousById_def)
  with snoc show ?case by (simp add: last_with_id_snoc)
qed

lemma last_with_id_distinct:
  "distinct (map obj_id prev) \<Longrightarrow> e \<in> set prev \<Longrightarrow> last_with_id (obj_id e) prev = Some e"
  using previousById_distinct [of prev e] by (simp add: previousById_last_with_id)



lemma reconcile_one_cases:
  "reconcile_one byId a m =
     (case byId (msg_id m) of
        None \<Rightarrow> (a, normalized_version m)
      | Some e \<Rightarrow> if field_equal (snd e) (normalized_version m) then e
                  else (a, normalized_version m))"
  by (simp add: reconcile_one_def Let_def shouldReuseMessage_iff msg_id_normalizeMessage
      normalizeMessage_normalized_version [symmetric] split: option.splits)

lemma nth_reconcileMessages:
  "i < length incoming \<Longrightarrow>
   reconcileMessages a prev incoming ! i =
     (case last_with_id (msg_id (incoming ! i)) prev of
        None \<Rightarrow> (a + i, normalized_version (incoming ! i))
      | Some e \<Rightarrow> if field_equal (snd e) (normalized_version (incoming ! i)) then e
                  else (a + i, normalized_version (incoming ! i)))"
  by (simp add: reconcileMessages_def nth_reconcile_from reconcile_one_cases
      previousById_last_with_id)

lemma msg_id_normalized_version: "msg_id (normalized_version m) = msg_id m"
  by (simp add: normalized_version_def)

text \<open>
  Claim C3, as amended. In a reconcile cycle started with allocation counter \<open>a\<close>, take
  the incoming message at position \<open>i\<close> and its freshly normalized version \<open>n\<close>. The
  reconciler compares \<open>n\<close> with one in-memory message, the last entry of the list that has
  the id of \<open>n\<close>. When that entry is field-equal to \<open>n\<close>, the result at position \<open>i\<close> is
  that very object, address included; when it is not, or the list has no entry with the
  id, the result is the new object holding \<open>n\<close>. When the ids of the list are pairwise
  distinct, the compared entry is the only message of the list with that id, so any list
  message field-equal to \<open>n\<close> is returned itself, and without one the new object is
  returned. The new object's address is not the address of any object of the list.
\<close>

theorem reconcile_keeps_equal_object:
  assumes "i < length incoming"
  shows "(let n = normalized_version (incoming ! i);
              out = reconcileMessages a prev incoming ! i
          in (case last_with_id (msg_id (incoming ! i)) prev of
                Some e \<Rightarrow> if field_equal (snd e) n then out = e else out = (a + i, n)
              | None \<Rightarrow> out = (a + i, n)) \<and>
             (distinct (map obj_id prev) \<longrightarrow>
                (\<forall>e \<in> set prev. field_equal (snd e) n \<longrightarrow> out = e) \<and>
                ((\<forall>e \<in> set prev. \<not> field_equal (snd e) n) \<longrightarrow> out = (a + i, n))) \<and>
             ((\<forall>e \<in> set prev. fst e < a) \<longrightarrow> a + i \<notin> fst ` set prev))"
proof -
  define n where "n = normalized_version (incoming ! i)"
  define out where "out = reconcileMessages a prev incoming ! i"
  have id_n: "msg_id n = msg_id (incoming ! i)"
    by (simp add: n_def msg_id_normalized_version)
  have out_eq: "out = (case last_with_id (msg_id (incoming ! i)) prev of
        None \<Rightarrow> (a + i, n)
      | Some e \<Rightarrow> if field_equal (snd e) n then e else (a + i, n))"
    unfolding out_def n_def using nth_reconcileMessages [OF assms, of a prev] by simp
  have part1: "(case last_with_id (msg_id (incoming ! i)) prev of
                Some e \<Rightarrow> if field_equal (snd e) n then out = e else out = (a + i, n)
              | None \<Rightarrow> out = (a + i, n))"
    using out_eq by (simp split: option.splits)
  have part2: "(\<forall>e \<in> set prev. field_equal (snd e) n \<longrightarrow> out = e) \<and>
               ((\<forall>e \<in> set prev. \<not> field_equal (snd e) n) \<longrightarrow> out = (a + i, n))"
    if d: "distinct (map obj_id prev)"
  proof (intro conjI ballI impI)
    fix e assume e: "e \<in> set prev" and fe: "field_equal (snd e) n"
    from fe have "obj_id e = msg_id (incoming ! i)" by (simp add: field_equal_def id_n)
    with last_with_id_distinct [OF d e]
    have "last_with_id (msg_id (incoming ! i)) prev = Some e" by simp
    with out_eq fe show "out = e" by simp
  next
    assume none: "\<forall>e \<in> set prev. \<not> field_equal (snd e) n"
    show "out = (a + i, n)"
    proof (cases "last_with_id (msg_id (incoming ! i)) prev")
      case None
      with out_eq show ?thesis by simp
    next
      case (Some e)
      then have "e \<in> set prev"
        by (auto simp: previousById_last_with_id [symmetric] dest: previousById_SomeD)
      with none have "\<not> field_equal (snd e) n" by blast
      with out_eq Some show ?thesis by simp
    qed
  qed
  have part3: "(\<forall>e \<in> set prev. fst e < a) \<longrightarrow> a + i \<notin> fst ` set prev"
    by auto
  show ?thesis
    unfolding Let_def n_def [symmetric] out_def [symmetric]
    using part1 part2 part3 by blast
qed

lemma reconcile_one_alternatives:
  "reconcile_one byId a m = (a, normalized_version m) \<or>
   (byId (msg_id m) = Some (reconcile_one byId a m) \<and>
    field_equal (snd (reconcile_one byId a m)) (normalized_version m))"
  by (simp add: reconcile_one_cases split: option.splits)

lemma ids_reconcileMessages:
  "map obj_id (reconcileMessages a prev incoming) = map msg_id incoming"
  by (simp add: reconcileMessages_def ids_reconcile_from)

lemma field_equal_refl: "field_equal m m"
  by (simp add: field_equal_def)

lemma field_equal_lists:
  "field_equal p n =
     (msg_id p = msg_id n \<and> messageContent p = messageContent n \<and>
      messageType p = messageType n \<and> readStatus p = readStatus n \<and>
      createdAt p = createdAt n \<and> updatedAt p = updatedAt n \<and>
      ref_id (senderUserId p) = ref_id (senderUserId n) \<and>
      reply_preview_of (replyTo p) = reply_preview_of (replyTo n) \<and>
      map user_emoji (reaction_list (reactions p)) = map user_emoji (reaction_list (reactions n)))"
proof -
  define ps where "ps = reaction_list (reactions p)"
  define ns where "ns = reaction_list (reactions n)"
  have "(map user_emoji ps = map user_emoji ns) =
        (length (map user_emoji ps) = length (map user_emoji ns) \<and>
         (\<forall>i < length (map user_emoji ps). map user_emoji ps ! i = map user_emoji ns ! i))"
    by (rule list_eq_iff_nth_eq)
  also have "\<dots> = (length ps = length ns \<and>
      (\<forall>i \<in> {0..<length ps}. user_emoji (ps ! i) = user_emoji (ns ! i)))"
    by (auto simp: Ball_def)
  finally show ?thesis
    unfolding field_equal_def ps_def ns_def by simp
qed

text \<open>
  Claim C9. A fetch-and-merge cycle ends when the response arrives and is merged, in
  whatever state the page is by then. After the merge the list carries exactly the ids of
  the polled snapshot, in the snapshot's order. The entry of each position is field-equal
  to the freshly normalized snapshot message of that position, and it is either the new
  object holding that message or the pre-existing object kept for it. A message of the
  previous list whose id is not in the snapshot is no longer in the list, neither as an
  object nor by its id.
\<close>

theorem poll_result_is_snapshot:
  "(let out = messages (fetchMessages response s)
    in map obj_id out = map msg_id response \<and>
       (\<forall>i \<in> {0..<length response}.
           field_equal (snd (out ! i)) (normalized_version (response ! i)) \<and>
           (out ! i = (next_addr s + i, normalized_version (response ! i)) \<or>
            out ! i \<in> set (messages s))) \<and>
       (\<forall>e \<in> set (messages s). obj_id e \<notin> set (map msg_id response) \<longrightarrow>
           e \<notin> set out \<and> obj_id e \<notin> set (map obj_id out)))"
proof -
  define out where "out = reconcileMessages (next_addr s) (messages s) response"
  have m: "messages (fetchMessages response s) = out"
    by (simp add: fetchMessages_def out_def)
  have ids: "map obj_id out = map msg_id response"
    by (simp add: out_def ids_reconcileMessages)
  have each: "field_equal (snd (out ! i)) (normalized_version (response ! i)) \<and>
        (out ! i = (next_addr s + i, normalized_version (response ! i)) \<or>
         out ! i \<in> set (messages s))"
    if "i < length response" for i
  proof -
    have "out ! i = reconcile_one (previousById (messages s)) (next_addr s + i) (response ! i)"
      using that by (simp add: out_def reconcileMessages_def nth_reconcile_from)
    then show ?thesis
      using reconcile_one_alternatives
        [of "previousById (messages s)" "next_addr s + i" "response ! i"]
      by (auto simp: field_equal_refl dest: previousById_SomeD)
  qed
  have gone: "e \<notin> set out \<and> obj_id e \<notin> set (map obj_id out)"
    if "obj_id e \<notin> set (map msg_id response)" for e
  proof -
    from that ids have "obj_id e \<notin> set (map obj_id out)" by simp
    then show ?thesis by auto
  qed
  show ?thesis
    unfolding Let_def m using ids each gone by auto
qed



subsection \<open>Projections of the state operations\<close>

lemma clearUnreadForKey_fields [simp]:
  "messages (clearUnreadForKey k s) = messages s"
  "replyToMessage (clearUnreadForKey k s) = replyToMessage s"
  "processedRealtimeMessageIds (clearUnreadForKey k s) = processedRealtimeMessageIds s"
  "activeNotificationKeyRef (clearUnreadForKey k s) = activeNotificationKeyRef s"
  "selectedRoom (clearUnreadForKey k s) = selectedRoom s"
  "selectedUser (clearUnreadForKey k s) = selectedUser s"
  "currentUserId (clearUnreadForKey k s) = currentUserId s"
  "next_addr (clearUnreadForKey k s) = next_addr s"
  by (simp_all add: clearUnreadForKey_def split: option.splits)

lemma unreadCounts_clearUnreadForKey:
  "unreadCounts (clearUnreadForKey k s) =
     (if k \<noteq> [] \<and> (\<exists>c. unreadCounts s k = Some c \<and> 0 < c)
      then (unreadCounts s)(k := None) else unreadCounts s)"
  by (auto simp: clearUnreadForKey_def split: option.splits)

lemma activeNotificationKey_clearUnreadForKey [simp]:
  "activeNotificationKey (clearUnreadForKey k s) = activeNotificationKey s"
  by (simp add: activeNotificationKey_def)

lemma selection_effects_fields [simp]:
  "processedRealtimeMessageIds (selection_effects b s) = processedRealtimeMessageIds s"
  "selectedRoom (selection_effects b s) = selectedRoom s"
  "selectedUser (selection_effects b s) = selectedUser s"
  "currentUserId (selection_effects b s) = currentUserId s"
  by (simp_all add: selection_effects_def Let_def)

lemma messages_selection_effects:
  "messages (selection_effects b s) = messages s \<or> messages (selection_effects b s) = []"
  by (simp add: selection_effects_def Let_def)

lemma activeNotificationKey_selection_effects [simp]:
  "activeNotificationKey (selection_effects b s) = activeNotificationKey s"
  by (simp add: activeNotificationKey_def)

lemma ref_selection_effects:
  "activeNotificationKeyRef (selection_effects b s) =
     (if activeNotificationKey s \<noteq> activeNotificationKey b then activeNotificationKey s
      else activeNotificationKeyRef s)"
  by (simp add: selection_effects_def Let_def)

lemma unread_clear_ref [simp]:
  "unreadCounts (clearUnreadForKey k (s \<lparr> activeNotificationKeyRef := x \<rparr>)) =
   unreadCounts (clearUnreadForKey k s)"
  by (auto simp: unreadCounts_clearUnreadForKey)

lemma unread_selection_effects:
  "unreadCounts (selection_effects b s) =
     (if activeNotificationKey s \<noteq> activeNotificationKey b
      then unreadCounts (clearUnreadForKey (activeNotificationKey s) s)
      else unreadCounts s)"
  by (simp add: selection_effects_def Let_def)

subsection \<open>The message list keeps distinct ids\<close>

lemma ids_update_objs:
  "(\<And>m m'. f m = Some m' \<Longrightarrow> msg_id m' = msg_id m) \<Longrightarrow>
   map obj_id (update_objs f a ms) = map obj_id ms"
  by (induction ms arbitrary: a) (auto split: option.splits)

lemma inv_messages_append: "inv_messages s \<Longrightarrow> inv_messages (appendRealtimeMessage m s)"
  by (auto simp: inv_messages_def appendRealtimeMessage_def msg_id_normalizeMessage)


lemma inv_messages_onNewMessage:
  "inv_messages s \<Longrightarrow> inv_messages (fst (onNewMessage m f s))"
  by (auto simp: inv_messages_def onNewMessage_def Let_def appendRealtimeMessage_def
      msg_id_normalizeMessage)

lemma inv_messages_fetch:
  "distinct (map msg_id response) \<Longrightarrow> inv_messages s \<Longrightarrow> inv_messages (fetchMessages response s)"
  by (auto simp: inv_messages_def fetchMessages_def ids_reconcileMessages)

lemma inv_messages_set_reactions: "inv_messages s \<Longrightarrow> inv_messages (set_reactions i rs s)"
proof -
  assume a: "inv_messages s"
  have "map obj_id (messages (set_reactions i rs s)) = map obj_id (messages s)"
    unfolding set_reactions_def by (simp, rule ids_update_objs) (auto split: if_splits)
  with a show ?thesis by (simp add: inv_messages_def)
qed

lemma inv_messages_remove: "inv_messages s \<Longrightarrow> inv_messages (remove_message i s)"
proof -
  assume a: "inv_messages s"
  have "map obj_id (messages (remove_message i s)) =
        map obj_id (filter (\<lambda>m. obj_id m \<noteq> i) (messages s))"
    unfolding remove_message_def by (simp, rule ids_update_objs) (auto split: if_splits)
  also have "distinct \<dots>"
    using a by (simp add: inv_messages_def distinct_map_filter)
  finally show ?thesis by (simp add: inv_messages_def)
qed

lemma inv_messages_same_or_empty:
  "messages t = messages s \<or> messages t = [] \<Longrightarrow> inv_messages s \<Longrightarrow> inv_messages t"
  by (auto simp: inv_messages_def)

lemma messages_removeRoomFromUi:
  "messages (removeRoomFromUi r s) = messages s \<or> messages (removeRoomFromUi r s) = []"
proof (cases "r = []")
  case True
  then show ?thesis by (simp add: removeRoomFromUi_def)
next
  case False
  obtain t where t: "removeRoomFromUi r s = selection_effects s t" and m: "messages t = messages s"
    using False by (auto simp: removeRoomFromUi_def Let_def split: option.splits)
  show ?thesis using messages_selection_effects [of s t] by (simp add: t m)
qed

lemma messages_selectRoom:
  "messages (selectRoom r s) = messages s \<or> messages (selectRoom r s) = []"
  using messages_selection_effects
    [of s "(clearUnreadForKey (buildRoomNotificationKey r) s) \<lparr> selectedRoom := Some r, selectedUser := None \<rparr>"]
  by (simp add: selectRoom_def Let_def)

lemma messages_selectUser:
  "messages (selectUser u s) = messages s \<or> messages (selectUser u s) = []"
  using messages_selection_effects
    [of s "(clearUnreadForKey (buildDmNotificationKey u) s) \<lparr> selectedUser := Some u, selectedRoom := None \<rparr>"]
  by (simp add: selectUser_def Let_def)

lemma messages_closeConversation: "messages (closeConversation s) = []"
  using messages_selection_effects
    [of s "s \<lparr> selectedRoom := None, selectedUser := None, messages := [] \<rparr>"]
  by (simp add: closeConversation_def)

lemma inv_messages_step:
  "snapshot_ok ev \<Longrightarrow> inv_messages s \<Longrightarrow> inv_messages (step s ev)"
proof (cases ev)
  case (NewMessage m f)
  then show "inv_messages s \<Longrightarrow> inv_messages (step s ev)"
    by (simp add: inv_messages_onNewMessage)
next
  case (Polled r)
  then show "snapshot_ok ev \<Longrightarrow> inv_messages s \<Longrightarrow> inv_messages (step s ev)"
    by (simp add: inv_messages_fetch)
next
  case (ReactionUpdated i rs)
  then show "inv_messages s \<Longrightarrow> inv_messages (step s ev)"
    by (simp add: onReactionUpdated_def inv_messages_set_reactions split: option.splits)
next
  case (MessageDeleted i)
  then show "inv_messages s \<Longrightarrow> inv_messages (step s ev)"
    by (simp add: onMessageDeleted_def inv_messages_remove)
next
  case (ConversationCleared t)
  then show "inv_messages s \<Longrightarrow> inv_messages (step s ev)"
    by (simp add: onConversationCleared_def Let_def inv_messages_def)
next
  case (RoomRemoved r)
  then show "inv_messages s \<Longrightarrow> inv_messages (step s ev)"
    using messages_removeRoomFromUi [of r s] by (simp add: inv_messages_same_or_empty)
next
  case (SelectRoom r)
  then show "inv_messages s \<Longrightarrow> inv_messages (step s ev)"
    using messages_selectRoom [of r s] by (simp add: inv_messages_same_or_empty)
next
  case (SelectUser u)
  then show "inv_messages s \<Longrightarrow> inv_messages (step s ev)"
    using messages_selectUser [of u s] by (simp add: inv_messages_same_or_empty)
next
  case CloseConversation
  then show "inv_messages s \<Longrightarrow> inv_messages (step s ev)"
    by (simp add: inv_messages_def messages_closeConversation)
next
  case (ReactToMessage i rs)
  then show "inv_messages s \<Longrightarrow> inv_messages (step s ev)"
    by (simp add: handleReactToMessage_def inv_messages_set_reactions)
next
  case (DeleteMessage i)
  then show "inv_messages s \<Longrightarrow> inv_messages (step s ev)"
    by (simp add: handleDeleteMessage_def inv_messages_remove)
next
  case ClearActiveConversation
  then show "inv_messages s \<Longrightarrow> inv_messages (step s ev)"
    by (simp add: handleClearActiveConversation_def Let_def inv_messages_def)
next
  case (ReplyToMessage m)
  then show "inv_messages s \<Longrightarrow> inv_messages (step s ev)"
    by (simp add: handleReplyToMessage_def inv_messages_def)
next
  case DismissReply
  then show "inv_messages s \<Longrightarrow> inv_messages (step s ev)"
    by (simp add: dismissReply_def inv_messages_def)
qed

lemma inv_messages_run:
  "\<forall>ev \<in> set evs. snapshot_ok ev \<Longrightarrow> inv_messages s \<Longrightarrow> inv_messages (run s evs)"
  unfolding run_def by (induction evs arbitrary: s) (auto simp: inv_messages_step)

lemma inv_messages_initial: "inv_messages (initial_chat uid)"
  by (simp add: inv_messages_def initial_chat_def)



subsection \<open>The processed-event cache\<close>

lemma appendRealtimeMessage_fields [simp]:
  "processedRealtimeMessageIds (appendRealtimeMessage m s) = processedRealtimeMessageIds s"
  "unreadCounts (appendRealtimeMessage m s) = unreadCounts s"
  "activeNotificationKeyRef (appendRealtimeMessage m s) = activeNotificationKeyRef s"
  "selectedRoom (appendRealtimeMessage m s) = selectedRoom s"
  "selectedUser (appendRealtimeMessage m s) = selectedUser s"
  "currentUserId (appendRealtimeMessage m s) = currentUserId s"
  by (simp_all add: appendRealtimeMessage_def)

lemma processed_onNewMessage:
  "processedRealtimeMessageIds (fst (onNewMessage m f s)) =
     (if msg_id m = [] \<or> msg_id m \<in> set (processedRealtimeMessageIds s)
      then processedRealtimeMessageIds s
      else evict (processedRealtimeMessageIds s @ [msg_id m]))"
  by (simp add: onNewMessage_def Let_def set_has_def set_add_def evict_def)

lemma evict_distinct:
  assumes "distinct added"
  shows "evict added = (if length added > 500 then tl added else added)"
proof (cases added)
  case Nil
  then show ?thesis by (simp add: evict_def)
next
  case (Cons x xs)
  with assms have "removeAll x xs = xs" by (simp add: removeAll_id)
  with Cons show ?thesis by (simp add: evict_def set_delete_def)
qed

lemma inv_cache_onNewMessage:
  assumes "inv_cache s"
  shows "inv_cache (fst (onNewMessage m f s))"
proof (cases "msg_id m = [] \<or> msg_id m \<in> set (processedRealtimeMessageIds s)")
  case True
  with assms show ?thesis by (simp add: inv_cache_def processed_onNewMessage)
next
  case False
  define added where "added = processedRealtimeMessageIds s @ [msg_id m]"
  have d: "distinct added" and l: "length added \<le> 501"
    using assms False by (auto simp: inv_cache_def added_def)
  have "distinct (evict added) \<and> length (evict added) \<le> 500"
    using d l by (auto simp: evict_distinct distinct_tl)
  with False show ?thesis
    by (simp add: inv_cache_def processed_onNewMessage added_def)
qed

lemma processed_set_reactions [simp]:
  "processedRealtimeMessageIds (set_reactions i rs s) = processedRealtimeMessageIds s"
  by (simp add: set_reactions_def)

lemma processed_remove_message [simp]:
  "processedRealtimeMessageIds (remove_message i s) = processedRealtimeMessageIds s"
  by (simp add: remove_message_def)

lemma processed_step:
  "processedRealtimeMessageIds (step s ev) =
     (case ev of NewMessage m f \<Rightarrow> processedRealtimeMessageIds (fst (onNewMessage m f s))
               | _ \<Rightarrow> processedRealtimeMessageIds s)"
proof (cases ev)
  case (RoomRemoved r)
  then show ?thesis by (simp add: removeRoomFromUi_def Let_def split: option.splits)
qed (simp_all add: fetchMessages_def Let_def onReactionUpdated_def onMessageDeleted_def
      onConversationCleared_def selectRoom_def selectUser_def closeConversation_def
      handleReactToMessage_def handleDeleteMessage_def handleClearActiveConversation_def
      handleReplyToMessage_def dismissReply_def
      split: option.splits)

lemma inv_cache_step: "inv_cache s \<Longrightarrow> inv_cache (step s ev)"
proof -
  assume a: "inv_cache s"
  show ?thesis
  proof (cases ev)
    case (NewMessage m f)
    with a show ?thesis by (simp add: inv_cache_onNewMessage)
  qed (use a in \<open>simp_all only: inv_cache_def processed_step event.case\<close>)
qed

lemma inv_cache_run: "inv_cache s \<Longrightarrow> inv_cache (run s evs)"
  unfolding run_def by (induction evs arbitrary: s) (auto simp: inv_cache_step)

lemma inv_cache_initial: "inv_cache (initial_chat uid)"
  by (simp add: inv_cache_def initial_chat_def)

text \<open>
  Claim C4. In every state a run reaches, and after one more pushed message, the
  processed-event cache holds at most 500 ids. When it holds exactly 500 and the pushed
  message brings a new id, the cache afterwards is the old one without its first (oldest
  inserted) id, followed by the new id: exactly one entry is evicted.
\<close>

theorem processed_cache_bounded:
  "(let s = run (initial_chat uid) evs;
        cache = processedRealtimeMessageIds s;
        cache' = processedRealtimeMessageIds (fst (onNewMessage m focused s))
    in length cache \<le> 500 \<and> length cache' \<le> 500 \<and>
       (length cache = 500 \<and> msg_id m \<noteq> [] \<and> \<not> set_has (msg_id m) cache \<longrightarrow>
          (\<exists>oldest rest. cache = oldest # rest \<and> cache' = rest @ [msg_id m])))"
proof -
  define s where "s = run (initial_chat uid) evs"
  have inv: "inv_cache s"
    unfolding s_def by (rule inv_cache_run) (rule inv_cache_initial)
  have inv': "inv_cache (fst (onNewMessage m focused s))"
    using inv by (rule inv_cache_onNewMessage)
  have evicts: "\<exists>oldest rest. processedRealtimeMessageIds s = oldest # rest \<and>
        processedRealtimeMessageIds (fst (onNewMessage m focused s)) = rest @ [msg_id m]"
    if full: "length (processedRealtimeMessageIds s) = 500" and new: "msg_id m \<noteq> []"
      "\<not> set_has (msg_id m) (processedRealtimeMessageIds s)"
  proof -
    from full obtain oldest rest where c: "processedRealtimeMessageIds s = oldest # rest"
      by (cases "processedRealtimeMessageIds s") auto
    have d: "distinct (processedRealtimeMessageIds s @ [msg_id m])"
      using inv new by (simp add: inv_cache_def set_has_def)
    have "processedRealtimeMessageIds (fst (onNewMessage m focused s)) =
          evict (processedRealtimeMessageIds s @ [msg_id m])"
      using new by (simp add: processed_onNewMessage set_has_def)
    also have "\<dots> = tl (processedRealtimeMessageIds s @ [msg_id m])"
      using full by (simp add: evict_distinct [OF d])
    also have "\<dots> = rest @ [msg_id m]" by (simp add: c)
    finally show ?thesis using c by blast
  qed
  show ?thesis
    unfolding Let_def s_def [symmetric]
    using inv inv' evicts by (simp add: inv_cache_def)
qed



subsection \<open>The unread counter map\<close>

lemma inv_unread_same:
  "unreadCounts t = unreadCounts s \<Longrightarrow> activeNotificationKeyRef t = activeNotificationKeyRef s \<Longrightarrow>
   selectedRoom t = selectedRoom s \<Longrightarrow> selectedUser t = selectedUser s \<Longrightarrow>
   inv_unread s \<Longrightarrow> inv_unread t"
proof -
  assume e: "unreadCounts t = unreadCounts s" "activeNotificationKeyRef t = activeNotificationKeyRef s"
    "selectedRoom t = selectedRoom s" "selectedUser t = selectedUser s" and i: "inv_unread s"
  have "activeNotificationKey t = activeNotificationKey s"
    using e by (simp add: activeNotificationKey_def)
  with e i show ?thesis unfolding inv_unread_def by metis
qed

lemma positive_entry_none:
  "(\<And>k c. u k = Some c \<Longrightarrow> 0 < c) \<Longrightarrow> \<forall>c. u k = Some c \<longrightarrow> c = (0::nat) \<Longrightarrow> u k = None"
  by (cases "u k") auto

lemma inv_unread_clear: "inv_unread s \<Longrightarrow> inv_unread (clearUnreadForKey k s)"
  by (auto simp: inv_unread_def unreadCounts_clearUnreadForKey)

lemma key_nonempty [simp]:
  "buildRoomNotificationKey r \<noteq> []" "buildDmNotificationKey u \<noteq> []"
  by (simp_all add: buildRoomNotificationKey_def buildDmNotificationKey_def)

lemma onNewMessage_selection [simp]:
  "selectedRoom (fst (onNewMessage m f s)) = selectedRoom s"
  "selectedUser (fst (onNewMessage m f s)) = selectedUser s"
  "activeNotificationKeyRef (fst (onNewMessage m f s)) = activeNotificationKeyRef s"
  "currentUserId (fst (onNewMessage m f s)) = currentUserId s"
  by (simp_all add: onNewMessage_def Let_def)

lemma unread_onNewMessage:
  "unreadCounts (fst (onNewMessage m f s)) =
     (let key = getMessageNotificationKey (currentUserId s) m
      in if msg_id m \<noteq> [] \<and> \<not> set_has (msg_id m) (processedRealtimeMessageIds s) \<and>
            key \<noteq> [] \<and> key \<noteq> activeNotificationKeyRef s
         then (unreadCounts s)(key \<mapsto> (case unreadCounts s key of None \<Rightarrow> 0 | Some c \<Rightarrow> c) + 1)
         else unreadCounts s)"
  by (simp add: onNewMessage_def Let_def)

lemma inv_unread_onNewMessage:
  assumes "inv_unread s"
  shows "inv_unread (fst (onNewMessage m f s))"
proof -
  have k: "activeNotificationKey (fst (onNewMessage m f s)) = activeNotificationKey s"
    by (simp add: activeNotificationKey_def)
  show ?thesis
    using assms unfolding inv_unread_def k
    by (auto simp: unread_onNewMessage Let_def)
qed

lemma inv_unread_selection_effects:
  assumes b: "inv_unread b"
    and le: "\<And>k. unreadCounts t k = None \<or> unreadCounts t k = unreadCounts b k"
    and r: "activeNotificationKeyRef t = activeNotificationKeyRef b"
  shows "inv_unread (selection_effects b t)"
proof -
  have pos: "0 < c" if "unreadCounts t k = Some c" for k c
    using le [of k] b that by (auto simp: inv_unread_def)
  have empty: "unreadCounts t [] = None"
    using le [of "[]"] b by (auto simp: inv_unread_def)
  show ?thesis
  proof (cases "activeNotificationKey t = activeNotificationKey b")
    case True
    then have "unreadCounts t (activeNotificationKey t) = None"
      using le [of "activeNotificationKey t"] b by (auto simp: inv_unread_def)
    with True pos empty b r show ?thesis
      by (auto simp: inv_unread_def unread_selection_effects ref_selection_effects)
  next
    case False
    with pos empty show ?thesis
      by (auto simp: inv_unread_def unread_selection_effects ref_selection_effects
          unreadCounts_clearUnreadForKey intro: positive_entry_none [of "unreadCounts t"])
  qed
qed

lemma inv_unread_selectRoom: "inv_unread s \<Longrightarrow> inv_unread (selectRoom r s)"
  unfolding selectRoom_def Let_def
  by (rule inv_unread_selection_effects) (auto simp: unreadCounts_clearUnreadForKey)

lemma inv_unread_selectUser: "inv_unread s \<Longrightarrow> inv_unread (selectUser u s)"
  unfolding selectUser_def Let_def
  by (rule inv_unread_selection_effects) (auto simp: unreadCounts_clearUnreadForKey)

lemma inv_unread_closeConversation: "inv_unread s \<Longrightarrow> inv_unread (closeConversation s)"
  unfolding closeConversation_def
  by (rule inv_unread_selection_effects) auto

lemma inv_unread_removeRoomFromUi: "inv_unread s \<Longrightarrow> inv_unread (removeRoomFromUi r s)"
proof (cases "r = []")
  case True
  then show "inv_unread s \<Longrightarrow> ?thesis" by (simp add: removeRoomFromUi_def)
next
  case False
  assume a: "inv_unread s"
  show ?thesis
    using False unfolding removeRoomFromUi_def Let_def
    by (simp, intro inv_unread_selection_effects a) (auto split: option.splits)
qed

lemma inv_unread_onConversationCleared:
  "inv_unread s \<Longrightarrow> inv_unread (onConversationCleared t s)"
proof -
  assume a: "inv_unread s"
  define s1 where
    "s1 = clearUnreadForKey (buildRoomNotificationKey t) (clearUnreadForKey (buildDmNotificationKey t) s)"
  have i1: "inv_unread s1"
    unfolding s1_def using a by (intro inv_unread_clear)
  have "inv_unread (s1 \<lparr> messages := [], replyToMessage := None \<rparr>)"
    using i1 by (rule inv_unread_same [rotated -1]) simp_all
  with i1 a show ?thesis
    by (simp add: onConversationCleared_def Let_def s1_def)
qed

lemma inv_unread_handleClear:
  "inv_unread s \<Longrightarrow> inv_unread (handleClearActiveConversation s)"
proof -
  assume a: "inv_unread s"
  have "inv_unread (s \<lparr> messages := [], replyToMessage := None \<rparr>)"
    using a by (rule inv_unread_same [rotated -1]) simp_all
  then show ?thesis
    using a by (simp add: handleClearActiveConversation_def Let_def inv_unread_clear)
qed

lemma inv_unread_step: "inv_unread s \<Longrightarrow> inv_unread (step s ev)"
proof -
  assume a: "inv_unread s"
  show ?thesis
  proof (cases ev)
    case (NewMessage m f)
    with a show ?thesis by (simp add: inv_unread_onNewMessage)
  next
    case (Polled r)
    have "inv_unread (fetchMessages r s)"
      using a by (rule inv_unread_same [rotated -1]) (simp_all add: fetchMessages_def)
    with Polled show ?thesis by simp
  next
    case (ReactionUpdated i rs)
    have "inv_unread (onReactionUpdated i rs s)"
      using a by (rule inv_unread_same [rotated -1])
        (simp_all add: onReactionUpdated_def set_reactions_def split: option.splits)
    with ReactionUpdated show ?thesis by simp
  next
    case (MessageDeleted i)
    have "inv_unread (onMessageDeleted i s)"
      using a by (rule inv_unread_same [rotated -1])
        (simp_all add: onMessageDeleted_def remove_message_def)
    with MessageDeleted show ?thesis by simp
  next
    case (ConversationCleared t)
    with a show ?thesis by (simp add: inv_unread_onConversationCleared)
  next
    case (RoomRemoved r)
    with a show ?thesis by (simp add: inv_unread_removeRoomFromUi)
  next
    case (SelectRoom r)
    with a show ?thesis by (simp add: inv_unread_selectRoom)
  next
    case (SelectUser u)
    with a show ?thesis by (simp add: inv_unread_selectUser)
  next
    case CloseConversation
    with a show ?thesis by (simp add: inv_unread_closeConversation)
  next
    case (ReactToMessage i rs)
    have "inv_unread (handleReactToMessage i rs s)"
      using a by (rule inv_unread_same [rotated -1])
        (simp_all add: handleReactToMessage_def set_reactions_def)
    with ReactToMessage show ?thesis by simp
  next
    case (DeleteMessage i)
    have "inv_unread (handleDeleteMessage i s)"
      using a by (rule inv_unread_same [rotated -1])
        (simp_all add: handleDeleteMessage_def remove_message_def)
    with DeleteMessage show ?thesis by simp
  next
    case ClearActiveConversation
    with a show ?thesis by (simp add: inv_unread_handleClear)
  next
    case (ReplyToMessage m)
    have "inv_unread (handleReplyToMessage m s)"
      using a by (rule inv_unread_same [rotated -1]) (simp_all add: handleReplyToMessage_def)
    with ReplyToMessage show ?thesis by simp
  next
    case DismissReply
    have "inv_unread (dismissReply s)"
      using a by (rule inv_unread_same [rotated -1]) (simp_all add: dismissReply_def)
    with DismissReply show ?thesis by simp
  qed
qed

lemma inv_unread_run: "inv_unread s \<Longrightarrow> inv_unread (run s evs)"
  unfolding run_def by (induction evs arbitrary: s) (auto simp: inv_unread_step)

lemma inv_unread_initial: "inv_unread (initial_chat uid)"
  by (simp add: inv_unread_def initial_chat_def activeNotificationKey_def has_id_def)



subsection \<open>Claims about the conversation state\<close>

lemma at_most_one_with_id:
  "distinct (map f xs) \<Longrightarrow> length (filter (\<lambda>x. f x = i) xs) \<le> 1"
proof (induction xs)
  case Nil
  then show ?case by simp
next
  case (Cons x xs)
  show ?case
  proof (cases "f x = i")
    case True
    from Cons.prems have "f x \<notin> f ` set xs" by simp
    with True have "\<forall>y \<in> set xs. f y \<noteq> i" by blast
    then have "filter (\<lambda>y. f y = i) xs = []"
      by (simp add: filter_empty_conv)
    with True show ?thesis by simp
  next
    case False
    with Cons show ?thesis by simp
  qed
qed

lemma append_existing_noop:
  "\<exists>existing \<in> set (messages s). obj_id existing = msg_id m \<Longrightarrow> appendRealtimeMessage m s = s"
  by (simp add: appendRealtimeMessage_def)

lemma processed_message_discarded:
  "set_has (msg_id m) (processedRealtimeMessageIds s) \<Longrightarrow> onNewMessage m focused s = (s, [])"
  by (simp add: onNewMessage_def Let_def)

text \<open>
  Claim C2, as amended. Along every run in which each polled snapshot has pairwise
  distinct ids, the message list never holds two messages with the same id (so any id
  occurs at most once). Append-live is a no-op when the id is already in the list;
  reconciling a snapshot with distinct ids gives a list with distinct ids; a push
  delivery whose id is still in the processed-event cache is discarded without any
  change; and after any push delivery, also one whose id the cache has evicted, the ids
  of the list are still distinct.
\<close>

theorem message_ids_stay_distinct:
  assumes "\<forall>ev \<in> set evs. snapshot_ok ev"
  shows "(let s = run (initial_chat uid) evs
          in distinct (map obj_id (messages s)) \<and>
             length (filter (\<lambda>e. obj_id e = i) (messages s)) \<le> 1 \<and>
             ((\<exists>existing \<in> set (messages s). obj_id existing = msg_id m) \<longrightarrow>
                appendRealtimeMessage m s = s) \<and>
             (distinct (map msg_id response) \<longrightarrow>
                distinct (map obj_id (reconcileMessages (next_addr s) (messages s) response))) \<and>
             (set_has (msg_id m) (processedRealtimeMessageIds s) \<longrightarrow>
                onNewMessage m focused s = (s, [])) \<and>
             distinct (map obj_id (messages (fst (onNewMessage m focused s)))))"
proof -
  define s where "s = run (initial_chat uid) evs"
  have inv: "inv_messages s"
    unfolding s_def using assms by (rule inv_messages_run) (rule inv_messages_initial)
  then have d: "distinct (map obj_id (messages s))"
    by (simp add: inv_messages_def)
  have one: "length (filter (\<lambda>e. obj_id e = i) (messages s)) \<le> 1"
    using d by (rule at_most_one_with_id)
  have after: "distinct (map obj_id (messages (fst (onNewMessage m focused s))))"
    using inv_messages_onNewMessage [OF inv, of m focused] by (simp add: inv_messages_def)
  show ?thesis
    unfolding Let_def s_def [symmetric]
    using d one after
    by (simp add: append_existing_noop processed_message_discarded ids_reconcileMessages)
qed

text \<open>
  Claim C6. Along every run, the unread counter map holds no entry for the key of the
  active conversation. A pushed message that is classified to a key other than the active
  one raises the entry of that key by exactly one (a missing entry counts as zero), and
  selecting a room or a user makes its key the active one and leaves no entry for it.
\<close>

theorem unread_counter_tracks_inactive:
  "(let s = run (initial_chat uid) evs;
        key = getMessageNotificationKey (currentUserId s) m
    in unreadCounts s (activeNotificationKeyRef s) = None \<and>
       activeNotificationKeyRef s = activeNotificationKey s \<and>
       (msg_id m \<noteq> [] \<and> \<not> set_has (msg_id m) (processedRealtimeMessageIds s) \<and>
        key \<noteq> [] \<and> key \<noteq> activeNotificationKeyRef s \<longrightarrow>
          unreadCounts (fst (onNewMessage m focused s)) key =
            Some ((case unreadCounts s key of None \<Rightarrow> 0 | Some c \<Rightarrow> c) + 1)) \<and>
       (r \<noteq> [] \<longrightarrow>
          activeNotificationKeyRef (selectRoom r s) = buildRoomNotificationKey r \<and>
          unreadCounts (selectRoom r s) (buildRoomNotificationKey r) = None) \<and>
       (u \<noteq> [] \<longrightarrow>
          activeNotificationKeyRef (selectUser u s) = buildDmNotificationKey u \<and>
          unreadCounts (selectUser u s) (buildDmNotificationKey u) = None))"
proof -
  define s where "s = run (initial_chat uid) evs"
  have inv: "inv_unread s"
    unfolding s_def by (rule inv_unread_run) (rule inv_unread_initial)
  have room: "activeNotificationKeyRef (selectRoom r s) = buildRoomNotificationKey r \<and>
      unreadCounts (selectRoom r s) (buildRoomNotificationKey r) = None" if "r \<noteq> []"
  proof -
    have k: "activeNotificationKey (selectRoom r s) = buildRoomNotificationKey r"
      using that by (simp add: selectRoom_def Let_def activeNotificationKey_def has_id_def the_id_def)
    from inv_unread_selectRoom [OF inv, of r] show ?thesis
      unfolding inv_unread_def k by metis
  qed
  have usr: "activeNotificationKeyRef (selectUser u s) = buildDmNotificationKey u \<and>
      unreadCounts (selectUser u s) (buildDmNotificationKey u) = None" if "u \<noteq> []"
  proof -
    have k: "activeNotificationKey (selectUser u s) = buildDmNotificationKey u"
      using that by (simp add: selectUser_def Let_def activeNotificationKey_def has_id_def the_id_def)
    from inv_unread_selectUser [OF inv, of u] show ?thesis
      unfolding inv_unread_def k by metis
  qed
  from inv have a: "unreadCounts s (activeNotificationKeyRef s) = None"
    and b: "activeNotificationKeyRef s = activeNotificationKey s"
    unfolding inv_unread_def by blast+
  have c: "unreadCounts s (activeNotificationKey s) = None"
    using a b by simp
  show ?thesis
    unfolding Let_def s_def [symmetric]
    using a b c room usr by (simp add: unread_onNewMessage Let_def)
qed

lemma positive_counts_run: "positive_counts (run (initial_chat uid) evs)"
proof -
  have "inv_unread (run (initial_chat uid) evs)"
    by (rule inv_unread_run) (rule inv_unread_initial)
  then show ?thesis by (simp add: inv_unread_def positive_counts_def)
qed

text \<open>
  Claim C8. Take a \<^verbatim>\<open>conversation:cleared\<close> event that carries a target id, and any
  state whose unread entries are all positive (every state a run reaches is such a state),
  with any message list and any reply in the composer. Afterwards the unread entries of
  the room key and of the direct-message key of the target are both gone and every other
  entry is as before. When the active conversation is the target under either key, the
  message list is empty and the composer has no reply; otherwise the list and the reply
  are left as they were. Nothing else changes.
\<close>

theorem conversation_cleared_effect:
  assumes "target \<noteq> []" and "positive_counts s"
  shows "(let s' = onConversationCleared target s
          in unreadCounts s' (buildRoomNotificationKey target) = None \<and>
             unreadCounts s' (buildDmNotificationKey target) = None \<and>
             (\<forall>k. k \<noteq> buildRoomNotificationKey target \<and> k \<noteq> buildDmNotificationKey target \<longrightarrow>
                  unreadCounts s' k = unreadCounts s k) \<and>
             (activeNotificationKeyRef s = buildRoomNotificationKey target \<or>
              activeNotificationKeyRef s = buildDmNotificationKey target \<longrightarrow>
                messages s' = [] \<and> replyToMessage s' = None) \<and>
             (activeNotificationKeyRef s \<noteq> buildRoomNotificationKey target \<and>
              activeNotificationKeyRef s \<noteq> buildDmNotificationKey target \<longrightarrow>
                messages s' = messages s \<and> replyToMessage s' = replyToMessage s) \<and>
             s' \<lparr> messages := messages s, replyToMessage := replyToMessage s,
                  unreadCounts := unreadCounts s \<rparr> = s)"
proof -
  from assms(2) have pos: "\<And>k c. unreadCounts s k = Some c \<Longrightarrow> 0 < c"
    by (simp add: positive_counts_def)
  define s1 where
    "s1 = clearUnreadForKey (buildRoomNotificationKey target)
            (clearUnreadForKey (buildDmNotificationKey target) s)"
  have u1: "unreadCounts s1 (buildRoomNotificationKey target) = None"
    using pos unfolding s1_def
    by (auto simp: unreadCounts_clearUnreadForKey intro: positive_entry_none [of "unreadCounts s"])
  have u2: "unreadCounts s1 (buildDmNotificationKey target) = None"
    using pos unfolding s1_def
    by (auto simp: unreadCounts_clearUnreadForKey intro: positive_entry_none [of "unreadCounts s"])
  have u3: "unreadCounts s1 k = unreadCounts s k"
    if "k \<noteq> buildRoomNotificationKey target" "k \<noteq> buildDmNotificationKey target" for k
    using that unfolding s1_def by (simp add: unreadCounts_clearUnreadForKey)
  have f: "messages s1 = messages s" "replyToMessage s1 = replyToMessage s"
    "activeNotificationKeyRef s1 = activeNotificationKeyRef s"
    by (simp_all add: s1_def)
  have rest: "s1 \<lparr> unreadCounts := unreadCounts s \<rparr> = s"
    unfolding s1_def by (simp add: clearUnreadForKey_def split: option.splits)
  have eq: "onConversationCleared target s =
      (if activeNotificationKeyRef s = buildDmNotificationKey target \<or>
          activeNotificationKeyRef s = buildRoomNotificationKey target
       then s1 \<lparr> messages := [], replyToMessage := None \<rparr> else s1)"
    using assms(1) by (simp add: onConversationCleared_def Let_def s1_def)
  have same: "(onConversationCleared target s)
       \<lparr> messages := messages s, replyToMessage := replyToMessage s,
         unreadCounts := unreadCounts s \<rparr> = s"
  proof -
    have "s1 \<lparr> messages := messages s, replyToMessage := replyToMessage s,
              unreadCounts := unreadCounts s \<rparr> = s1 \<lparr> unreadCounts := unreadCounts s \<rparr>"
      using f(1,2) by (metis (no_types) chat.surjective chat.update_convs(4,5,6))
    with rest show ?thesis unfolding eq by simp
  qed
  show ?thesis
    unfolding Let_def
    using u1 u2 u3 f same unfolding eq by auto
qed



subsection \<open>Call signaling\<close>

lemma normalizeSessionDescription_None:
  "normalizeSessionDescription d = None \<longleftrightarrow> \<not> well_formed_description d"
  by (auto simp: normalizeSessionDescription_def well_formed_description_def Let_def
      split: option.splits)

lemma normalizeSessionDescription_Some:
  "(t = ''offer'' \<or> t = ''answer'') \<Longrightarrow> sdp \<noteq> [] \<Longrightarrow>
   normalizeSessionDescription (Some \<lparr> raw_type = Some t, raw_sdp = Some sdp \<rparr>) =
     Some \<lparr> sd_type = t, sd_sdp = sdp \<rparr>"
  by (auto simp: normalizeSessionDescription_def Let_def)

text \<open>
  Claim C10. A \<^verbatim>\<open>call:offer\<close> event without a sender id, or whose session description
  is not well formed (no object, a type other than \<^verbatim>\<open>offer\<close> and \<^verbatim>\<open>answer\<close>, or an sdp
  that is absent, not a string or empty), leaves the call session as it is and emits
  nothing, whatever the state of the session: no busy reply is sent either.
\<close>

theorem malformed_offer_dropped:
  assumes "offer_fromUserId payload = [] \<or> \<not> well_formed_description (offer_offer payload)"
  shows "onCallOffer now rnd payload s = (s, [])"
proof (cases "normalizeSessionDescription (offer_offer payload)")
  case None
  then show ?thesis by (simp add: onCallOffer_def Let_def)
next
  case (Some d)
  then have "well_formed_description (offer_offer payload)"
    using normalizeSessionDescription_None [of "offer_offer payload"] by simp
  with assms have "offer_fromUserId payload = []" by simp
  with Some show ?thesis by (simp add: onCallOffer_def Let_def)
qed

text \<open>
  Claim C1, as amended. A \<^verbatim>\<open>call:offer\<close> event that carries a sender id and a
  well-formed session description, received while the session is not idle (a pending
  incoming offer, an active peer id or a connection object exists), is answered with one
  \<^verbatim>\<open>call:end\<close> event to the sender, for the offer's call id (a generated one when the
  offer has none), with reason \<^verbatim>\<open>busy\<close>; the session, and with it status, call id, peer
  id, pending offer and ICE queue, is unchanged.
\<close>

theorem busy_offer_rejected:
  assumes "hasActiveCall s"
    and "offer_fromUserId payload \<noteq> []"
    and "well_formed_description (offer_offer payload)"
  shows "onCallOffer now rnd payload s =
           (s, [Emit_call_end (offer_fromUserId payload)
                  (if offer_callId payload \<noteq> [] then offer_callId payload
                   else buildCallId (offer_fromUserId payload) now rnd)
                  ''busy''])"
proof -
  from assms(3) obtain d where "normalizeSessionDescription (offer_offer payload) = Some d"
    using normalizeSessionDescription_None [of "offer_offer payload"] by auto
  with assms(1,2) show ?thesis
    by (simp add: onCallOffer_def Let_def)
qed

lemma add_queued_map: "add_queued cs = map AddIceCandidate cs"
  by (induction cs) simp_all

lemma flush_with_remote_description:
  "peerConnectionRef t = Some pc \<Longrightarrow> remoteDescription pc \<noteq> None \<Longrightarrow>
   flushQueuedIceCandidates t =
     (t \<lparr> queuedIceCandidatesRef := [] \<rparr>, map AddIceCandidate (queuedIceCandidatesRef t))"
  by (auto simp: flushQueuedIceCandidates_def Let_def add_queued_map)

text \<open>The code's trimming and normalizing agree with the specification's notions.\<close>

lemma is_space_white: "is_space c = (c \<in> white)"
  by (auto simp: is_space_def white_def)

lemma dropWhile_strip_front: "dropWhile is_space cs = strip_front cs"
  by (induction cs) (simp_all add: is_space_white)

lemma trim_stripped: "trim line = stripped line"
  by (simp add: trim_def stripped_def dropWhile_strip_front)

lemma normalized_event_candidate:
  "(case normalizeIceCandidatePayload (ice_candidate p) of
      None \<Rightarrow> None
    | Some c \<Rightarrow> if k c then Some c else None) = event_candidate k p"
  by (simp add: normalizeIceCandidatePayload_def event_candidate_def trim_stripped Let_def
      split: option.splits)

lemma other_call_iff: "other_call callId s = (\<not> for_active_call callId s)"
  by (auto simp: other_call_def for_active_call_def)

lemma onCallIceCandidate_queues:
  assumes "for_active_call (ice_callId p) s" and "remote_description_unset s"
  shows "onCallIceCandidate k p s =
           (s \<lparr> queuedIceCandidatesRef :=
                  queuedIceCandidatesRef s @
                    (case event_candidate k p of None \<Rightarrow> [] | Some c \<Rightarrow> [c]) \<rparr>, [])"
  using assms
  by (auto simp: onCallIceCandidate_def normalized_event_candidate [symmetric]
      remote_description_unset_def other_call_iff split: option.splits)

lemma onCallIceCandidates_queue:
  assumes "\<forall>p \<in> set payloads. for_active_call (ice_callId p) s"
    and "remote_description_unset s"
  shows "onCallIceCandidates k payloads s =
           (s \<lparr> queuedIceCandidatesRef :=
                  queuedIceCandidatesRef s @ List.map_filter (event_candidate k) payloads \<rparr>, [])"
  using assms
proof (induction payloads arbitrary: s)
  case Nil
  then show ?case by (simp add: List.map_filter_def)
next
  case (Cons p ps)
  define s1 where
    "s1 = s \<lparr> queuedIceCandidatesRef :=
                 queuedIceCandidatesRef s @
                   (case event_candidate k p of None \<Rightarrow> [] | Some c \<Rightarrow> [c]) \<rparr>"
  have one: "onCallIceCandidate k p s = (s1, [])"
    unfolding s1_def using Cons.prems by (intro onCallIceCandidate_queues) simp_all
  have a: "\<forall>q \<in> set ps. for_active_call (ice_callId q) s1"
    using Cons.prems(1) by (simp add: s1_def for_active_call_def)
  have b: "remote_description_unset s1"
    using Cons.prems(2) by (simp add: s1_def remote_description_unset_def)
  have rest: "onCallIceCandidates k ps s1 =
        (s1 \<lparr> queuedIceCandidatesRef :=
                 queuedIceCandidatesRef s1 @ List.map_filter (event_candidate k) ps \<rparr>, [])"
    using a b by (rule Cons.IH)
  have "onCallIceCandidates k (p # ps) s =
        (s1 \<lparr> queuedIceCandidatesRef :=
                 queuedIceCandidatesRef s1 @ List.map_filter (event_candidate k) ps \<rparr>, [])"
    by (simp add: one rest)
  also have "s1 \<lparr> queuedIceCandidatesRef :=
                 queuedIceCandidatesRef s1 @ List.map_filter (event_candidate k) ps \<rparr> =
             s \<lparr> queuedIceCandidatesRef :=
                 queuedIceCandidatesRef s @ List.map_filter (event_candidate k) (p # ps) \<rparr>"
    by (simp add: s1_def map_filter_simps split: option.splits)
  finally show ?case .
qed

text \<open>
  Claim C5. Take any sequence of \<^verbatim>\<open>call:ice-candidate\<close> events for the active call,
  arriving while the remote description is not set. Handling them one after the other
  changes nothing but the pending queue, which grows by the candidates the events bring,
  in arrival order (an event that brings no candidate contributes none), and makes no
  call on the connection. When the connection then has its remote description and the
  queue is flushed, the flush empties the queue and calls \<^verbatim>\<open>addIceCandidate\<close> once for
  each queued candidate, in that same order, each call made after the one before it has
  settled.
\<close>

theorem ice_candidates_queued_in_order:
  assumes "\<forall>p \<in> set payloads. for_active_call (ice_callId p) s"
    and "remote_description_unset s"
  shows "(let arrived = List.map_filter (event_candidate constructible) payloads;
              s1 = fst (onCallIceCandidates constructible payloads s)
          in s1 = s \<lparr> queuedIceCandidatesRef := queuedIceCandidatesRef s @ arrived \<rparr> \<and>
             snd (onCallIceCandidates constructible payloads s) = [] \<and>
             (\<forall>pc. remoteDescription pc \<noteq> None \<longrightarrow>
                flushQueuedIceCandidates (s1 \<lparr> peerConnectionRef := Some pc \<rparr>) =
                  (s1 \<lparr> peerConnectionRef := Some pc, queuedIceCandidatesRef := [] \<rparr>,
                   map AddIceCandidate (queuedIceCandidatesRef s @ arrived))))"
proof -
  define arrived where "arrived = List.map_filter (event_candidate constructible) payloads"
  define s1 where "s1 = fst (onCallIceCandidates constructible payloads s)"
  have all: "onCallIceCandidates constructible payloads s =
      (s \<lparr> queuedIceCandidatesRef := queuedIceCandidatesRef s @ arrived \<rparr>, [])"
    unfolding arrived_def using assms by (rule onCallIceCandidates_queue)
  then have q: "s1 = s \<lparr> queuedIceCandidatesRef := queuedIceCandidatesRef s @ arrived \<rparr>"
    and c: "snd (onCallIceCandidates constructible payloads s) = []"
    by (simp_all add: s1_def)
  have f: "flushQueuedIceCandidates (s1 \<lparr> peerConnectionRef := Some pc \<rparr>) =
        (s1 \<lparr> peerConnectionRef := Some pc, queuedIceCandidatesRef := [] \<rparr>,
         map AddIceCandidate (queuedIceCandidatesRef s @ arrived))"
    if "remoteDescription pc \<noteq> None" for pc
    using that
      flush_with_remote_description [of "s1 \<lparr> peerConnectionRef := Some pc \<rparr>" pc]
    by (simp add: q)
  show ?thesis
    unfolding Let_def arrived_def [symmetric] s1_def [symmetric]
    using q c f by blast
qed

text \<open>
  Claim C7, as amended. A \<^verbatim>\<open>call:answer\<close> event that carries a call id different from
  the active call id is ignored: no state change, no call on the connection. For an
  answer for the active call that carries a well-formed session description, received
  while a connection object exists, the handler calls \<^verbatim>\<open>setRemoteDescription\<close> with that
  description and changes nothing itself. Without a connection object, or with a
  malformed description, the event is dropped with no state change and no call. When the
  browser has accepted the description, the handler goes on in the state of that moment:
  with the connection holding a remote description, it empties the queue and calls
  \<^verbatim>\<open>addIceCandidate\<close> for the queued candidates in order; when the flush has finished, the
  status becomes \<^verbatim>\<open>connecting\<close> unless it is \<^verbatim>\<open>incoming\<close>, and nothing else changes.
  When the browser rejects the description, the session is reset: the status is idle, the
  error is \<^verbatim>\<open>Failed to connect call.\<close>, peer, call id, pending offer, queue, connection
  and streams are cleared, the mute and camera flags are off, and nothing is emitted.
\<close>

theorem answer_handling:
  "(answer_callId payload \<noteq> [] \<and> activeCallIdRef s \<noteq> [] \<and>
    answer_callId payload \<noteq> activeCallIdRef s \<longrightarrow>
      onCallAnswer payload s = (s, [])) \<and>
   ((answer_callId payload = [] \<or> activeCallIdRef s = [] \<or>
     answer_callId payload = activeCallIdRef s) \<and>
    peerConnectionRef s = Some pc \<and>
    answer_answer payload = Some \<lparr> raw_type = Some t, raw_sdp = Some sdp \<rparr> \<and>
    (t = ''offer'' \<or> t = ''answer'') \<and> sdp \<noteq> [] \<longrightarrow>
      onCallAnswer payload s = (s, [SetRemoteDescription \<lparr> sd_type = t, sd_sdp = sdp \<rparr>])) \<and>
   (peerConnectionRef s = None \<or> \<not> well_formed_description (answer_answer payload) \<longrightarrow>
      onCallAnswer payload s = (s, [])) \<and>
   (peerConnectionRef r = Some pc' \<and> remoteDescription pc' \<noteq> None \<longrightarrow>
      onCallAnswer_resolved r =
        (r \<lparr> queuedIceCandidatesRef := [] \<rparr>, map AddIceCandidate (queuedIceCandidatesRef r))) \<and>
   onCallAnswer_flushed u =
     u \<lparr> callState :=
           (if cs_status (callState u) = Incoming then callState u
            else (callState u) \<lparr> cs_status := Connecting \<rparr>) \<rparr> \<and>
   onCallAnswer_rejected v =
     (\<lparr> callState =
          \<lparr> cs_status = Idle, cs_callType = ''audio'', cs_peerUserId = [], cs_peerName = [],
            cs_callId = [], cs_error = ''Failed to connect call.'' \<rparr>,
        pendingIncomingCallRef = None, queuedIceCandidatesRef = [], activeCallPeerIdRef = [],
        activeCallIdRef = [], activeCallTypeRef = ''audio'', peerConnectionRef = None,
        localStreamRef = False, remoteStreamRef = False, isMicMuted = False,
        isCameraOff = False, usersRef = usersRef v \<rparr>, [])"
proof (intro conjI impI)
  assume "answer_callId payload \<noteq> [] \<and> activeCallIdRef s \<noteq> [] \<and>
    answer_callId payload \<noteq> activeCallIdRef s"
  then show "onCallAnswer payload s = (s, [])"
    by (simp add: onCallAnswer_def other_call_def)
next
  assume h: "(answer_callId payload = [] \<or> activeCallIdRef s = [] \<or>
     answer_callId payload = activeCallIdRef s) \<and>
    peerConnectionRef s = Some pc \<and>
    answer_answer payload = Some \<lparr> raw_type = Some t, raw_sdp = Some sdp \<rparr> \<and>
    (t = ''offer'' \<or> t = ''answer'') \<and> sdp \<noteq> []"
  then have m: "\<not> other_call (answer_callId payload) s"
    by (auto simp: other_call_def)
  from h have n: "normalizeSessionDescription (answer_answer payload) =
      Some \<lparr> sd_type = t, sd_sdp = sdp \<rparr>"
    by (simp add: normalizeSessionDescription_Some)
  from h have pc: "peerConnectionRef s = Some pc" by simp
  show "onCallAnswer payload s = (s, [SetRemoteDescription \<lparr> sd_type = t, sd_sdp = sdp \<rparr>])"
    using m n pc by (simp add: onCallAnswer_def)
next
  assume h: "peerConnectionRef s = None \<or> \<not> well_formed_description (answer_answer payload)"
  then have "peerConnectionRef s = None \<or>
      normalizeSessionDescription (answer_answer payload) = None"
    by (simp add: normalizeSessionDescription_None)
  then show "onCallAnswer payload s = (s, [])"
    by (auto simp: onCallAnswer_def split: option.splits)
next
  assume "peerConnectionRef r = Some pc' \<and> remoteDescription pc' \<noteq> None"
  then show "onCallAnswer_resolved r =
        (r \<lparr> queuedIceCandidatesRef := [] \<rparr>, map AddIceCandidate (queuedIceCandidatesRef r))"
    by (simp add: onCallAnswer_resolved_def flush_with_remote_description)
next
  show "onCallAnswer_flushed u =
     u \<lparr> callState :=
           (if cs_status (callState u) = Incoming then callState u
            else (callState u) \<lparr> cs_status := Connecting \<rparr>) \<rparr>"
    by (simp add: onCallAnswer_flushed_def Let_def)
next
  show "onCallAnswer_rejected v =
     (\<lparr> callState =
          \<lparr> cs_status = Idle, cs_callType = ''audio'', cs_peerUserId = [], cs_peerName = [],
            cs_callId = [], cs_error = ''Failed to connect call.'' \<rparr>,
        pendingIncomingCallRef = None, queuedIceCandidatesRef = [], activeCallPeerIdRef = [],
        activeCallIdRef = [], activeCallTypeRef = ''audio'', peerConnectionRef = None,
        localStreamRef = False, remoteStreamRef = False, isMicMuted = False,
        isCameraOff = False, usersRef = usersRef v \<rparr>, [])"
    by (cases v)
      (simp add: onCallAnswer_rejected_def endActiveCall_def resetCallSession_def
        INITIAL_CALL_STATE_def Let_def)
qed



subsection \<open>Instances\<close>

lemmas chat_defs =
  run_def initial_chat_def selectRoom_def selectUser_def selection_effects_def
  clearUnreadForKey_def activeNotificationKey_def has_id_def the_id_def
  buildRoomNotificationKey_def buildDmNotificationKey_def onNewMessage_def
  getMessageNotificationKey_def appendRealtimeMessage_def set_has_def set_add_def
  set_delete_def text_message_def normalizeMessage_def normalizeReplyPreview_def
  stored_reply_def fetchMessages_def onConversationCleared_def Let_def

lemma room_open_state:
  "room_open =
     \<lparr> currentUserId = ''me'', selectedRoom = Some ''r1'', selectedUser = None,
       messages = [(0, (text_message ''m1'' ''u2'' ''r1'' ''hi'') \<lparr> reactions := Some [] \<rparr>)],
       replyToMessage = None, unreadCounts = Map.empty, activeNotificationKeyRef = ''room:r1'',
       processedRealtimeMessageIds = [''m1''], next_addr = 1 \<rparr>"
  by (simp add: room_open_def chat_defs)

lemma normalized_text_message:
  "normalized_version (text_message i a b c) = (text_message i a b c) \<lparr> reactions := Some [] \<rparr>"
  by (simp add: normalized_version_def text_message_def)

lemma rich_open_state:
  "messages rich_open =
     [(0, rich_stored), (1, plain_message \<lparr> reactions := Some [], replyTo := NoReply \<rparr>)]"
  "next_addr rich_open = 2"
  by (simp_all add: rich_open_def chat_defs reconcileMessages_def reconcile_one_def
      previousById_def shouldReuseMessage_def rich_message_def rich_stored_def
      plain_message_def falsy_def)

text \<open>
  The room holds \<^verbatim>\<open>m5\<close> and \<^verbatim>\<open>m6\<close> at the addresses 0 and 1. The next poll brings \<^verbatim>\<open>m5\<close>
  with the same content in another shape, and \<^verbatim>\<open>m6\<close> with a reaction it did not have. The
  object of \<^verbatim>\<open>m5\<close> is kept (address 0); for \<^verbatim>\<open>m6\<close> a new object is made at address 3, with
  the reaction, and without the bare reply id the server sent.
\<close>

theorem reconcile_keeps_equal_object_witness:
  "(0::nat) < length [rich_message_again, plain_message_reacted] \<and>
   (1::nat) < length [rich_message_again, plain_message_reacted] \<and>
   messages rich_open =
     [(0, rich_stored), (1, plain_message \<lparr> reactions := Some [], replyTo := NoReply \<rparr>)] \<and>
   distinct (map obj_id (messages rich_open)) \<and>
   field_equal rich_stored (normalized_version rich_message_again) \<and>
   rich_stored \<noteq> normalized_version rich_message_again \<and>
   reconcileMessages 2 (messages rich_open) [rich_message_again, plain_message_reacted] ! 0 =
     (0, rich_stored) \<and>
   \<not> field_equal rich_stored (normalized_version plain_message_reacted) \<and>
   \<not> field_equal (plain_message \<lparr> reactions := Some [], replyTo := NoReply \<rparr>)
       (normalized_version plain_message_reacted) \<and>
   reconcileMessages 2 (messages rich_open) [rich_message_again, plain_message_reacted] ! 1 =
     (3, \<lparr> msg_id = ''m6'', senderUserId = StrRef ''u3'', receiverUserIdOrRoomId = StrRef ''r1'',
           messageContent = ''nice'', messageType = ''text'', readStatus = False,
           createdAt = ''2024-05-01T10:07:00Z'', updatedAt = ''2024-05-01T10:07:00Z'',
           reactions = Some [\<lparr> reaction_user = StrRef ''me'', reaction_emoji = Some ''ok'' \<rparr>],
           replyTo = NoReply \<rparr>)"
proof -
  define incoming where "incoming = [rich_message_again, plain_message_reacted]"
  define plain_stored where
    "plain_stored = plain_message \<lparr> reactions := Some [], replyTo := NoReply \<rparr>"
  have prev: "messages rich_open = [(0, rich_stored), (1, plain_stored)]"
    by (simp add: rich_open_state plain_stored_def)
  have h0: "(0::nat) < length incoming" and h1: "(1::nat) < length incoming"
    by (simp_all add: incoming_def)
  have d: "distinct (map obj_id (messages rich_open))"
    by (simp add: prev rich_stored_def plain_stored_def plain_message_def)
  have fe: "field_equal rich_stored (normalized_version rich_message_again)"
    by (simp add: field_equal_lists rich_stored_def rich_message_again_def
        normalized_version_def user_emoji_def)
  have ne: "rich_stored \<noteq> normalized_version rich_message_again"
    by (simp add: rich_stored_def rich_message_again_def normalized_version_def)
  have n1: "normalized_version plain_message_reacted =
      \<lparr> msg_id = ''m6'', senderUserId = StrRef ''u3'', receiverUserIdOrRoomId = StrRef ''r1'',
        messageContent = ''nice'', messageType = ''text'', readStatus = False,
        createdAt = ''2024-05-01T10:07:00Z'', updatedAt = ''2024-05-01T10:07:00Z'',
        reactions = Some [\<lparr> reaction_user = StrRef ''me'', reaction_emoji = Some ''ok'' \<rparr>],
        replyTo = NoReply \<rparr>"
    by (simp add: normalized_version_def plain_message_reacted_def plain_message_def)
  have nf1: "\<not> field_equal rich_stored (normalized_version plain_message_reacted)"
    by (simp add: n1 field_equal_lists rich_stored_def)
  have nf2: "\<not> field_equal plain_stored (normalized_version plain_message_reacted)"
    by (simp add: n1 field_equal_lists plain_stored_def plain_message_def)
  have none: "\<forall>e \<in> set (messages rich_open).
      \<not> field_equal (snd e) (normalized_version plain_message_reacted)"
    using nf1 nf2 by (simp add: prev)
  have mem: "(0, rich_stored) \<in> set (messages rich_open)" by (simp add: prev)
  from reconcile_keeps_equal_object [OF h0, of 2 "messages rich_open"] d mem fe
  have r0: "reconcileMessages 2 (messages rich_open) incoming ! 0 = (0, rich_stored)"
    unfolding Let_def incoming_def by fastforce
  from reconcile_keeps_equal_object [OF h1, of 2 "messages rich_open"] d none
  have r1: "reconcileMessages 2 (messages rich_open) incoming ! 1 =
      (3, normalized_version plain_message_reacted)"
    unfolding Let_def incoming_def by simp
  show ?thesis
    using h0 h1 d fe ne nf1 nf2 r0 r1 prev
    unfolding incoming_def plain_stored_def n1 by simp
qed

text \<open>
  A poll has listed \<^verbatim>\<open>m1\<close> twice, first with the body \<^verbatim>\<open>a\<close>, then with the body \<^verbatim>\<open>b\<close>;
  the list holds both, at the addresses 0 and 1. The next poll brings \<^verbatim>\<open>m1\<close> with the
  body \<^verbatim>\<open>a\<close>. The in-memory message at address 0 has this id and is field-equal to it,
  but the reconciler compares with the last entry of that id, the one with the body
  \<^verbatim>\<open>b\<close>, and returns a new object, at address 2.
\<close>

theorem equal_object_not_kept_counterexample:
  "messages twice_listed =
     [(0, (text_message ''m1'' ''u2'' ''r1'' ''a'') \<lparr> reactions := Some [] \<rparr>),
      (1, (text_message ''m1'' ''u2'' ''r1'' ''b'') \<lparr> reactions := Some [] \<rparr>)] \<and>
   next_addr twice_listed = 2 \<and>
   messages twice_listed ! 0 \<in> set (messages twice_listed) \<and>
   obj_id (messages twice_listed ! 0) = msg_id (text_message ''m1'' ''u2'' ''r1'' ''a'') \<and>
   field_equal (snd (messages twice_listed ! 0))
     (normalized_version (text_message ''m1'' ''u2'' ''r1'' ''a'')) \<and>
   reconcileMessages 2 (messages twice_listed) [text_message ''m1'' ''u2'' ''r1'' ''a''] ! 0 =
     (2, (text_message ''m1'' ''u2'' ''r1'' ''a'') \<lparr> reactions := Some [] \<rparr>) \<and>
   reconcileMessages 2 (messages twice_listed) [text_message ''m1'' ''u2'' ''r1'' ''a''] ! 0 \<noteq>
     messages twice_listed ! 0"
proof -
  have st: "messages twice_listed =
     [(0, (text_message ''m1'' ''u2'' ''r1'' ''a'') \<lparr> reactions := Some [] \<rparr>),
      (1, (text_message ''m1'' ''u2'' ''r1'' ''b'') \<lparr> reactions := Some [] \<rparr>)]"
    "next_addr twice_listed = 2"
    by (simp_all add: twice_listed_def chat_defs reconcileMessages_def reconcile_one_def
        previousById_def shouldReuseMessage_def)
  have fe: "field_equal (snd (messages twice_listed ! 0))
     (normalized_version (text_message ''m1'' ''u2'' ''r1'' ''a''))"
    by (simp add: st normalized_text_message field_equal_refl)
  have out: "reconcileMessages 2 (messages twice_listed) [text_message ''m1'' ''u2'' ''r1'' ''a''] ! 0 =
     (2, (text_message ''m1'' ''u2'' ''r1'' ''a'') \<lparr> reactions := Some [] \<rparr>)"
    by (simp add: st reconcileMessages_def reconcile_one_def previousById_def
        shouldReuseMessage_def normalizeMessage_def normalizeReplyPreview_def stored_reply_def
        text_message_def Let_def)
  show ?thesis
    using fe out by (simp add: st text_message_def)
qed

text \<open>
  The room \<^verbatim>\<open>r1\<close> is open and holds the pushed \<^verbatim>\<open>m1\<close>; a request is on its way. When the
  response brings \<^verbatim>\<open>m2\<close> and \<^verbatim>\<open>m3\<close> only, the list is these two, as new objects, and
  \<^verbatim>\<open>m1\<close> has left it. When the conversation is closed before the response arrives, the
  response is merged all the same: the emptied list becomes the snapshot.
\<close>

theorem poll_result_is_snapshot_witness:
  "fetchMessages_request room_open = Some (GetRoomMessages ''r1'') \<and>
   map obj_id (messages room_open) = [''m1''] \<and>
   messages (fetchMessages
      [text_message ''m2'' ''u2'' ''r1'' ''yo'', text_message ''m3'' ''u4'' ''r1'' ''ok''] room_open) =
     [(1, (text_message ''m2'' ''u2'' ''r1'' ''yo'') \<lparr> reactions := Some [] \<rparr>),
      (2, (text_message ''m3'' ''u4'' ''r1'' ''ok'') \<lparr> reactions := Some [] \<rparr>)] \<and>
   (0, (text_message ''m1'' ''u2'' ''r1'' ''hi'') \<lparr> reactions := Some [] \<rparr>) \<notin>
     set (messages (fetchMessages
      [text_message ''m2'' ''u2'' ''r1'' ''yo'', text_message ''m3'' ''u4'' ''r1'' ''ok''] room_open)) \<and>
   fetchMessages_request (closeConversation room_open) = None \<and>
   messages (closeConversation room_open) = [] \<and>
   map obj_id (messages (fetchMessages [text_message ''m1'' ''u2'' ''r1'' ''hi'']
      (closeConversation room_open))) = [''m1'']"
proof -
  define response where
    "response = [text_message ''m2'' ''u2'' ''r1'' ''yo'', text_message ''m3'' ''u4'' ''r1'' ''ok'']"
  define out where "out = messages (fetchMessages response room_open)"
  have rq: "fetchMessages_request room_open = Some (GetRoomMessages ''r1'')"
    by (simp add: room_open_state fetchMessages_request_def has_id_def the_id_def)
  have ids: "map msg_id response = [''m2'', ''m3'']"
    by (simp add: response_def text_message_def)
  have old: "messages room_open = [(0, (text_message ''m1'' ''u2'' ''r1'' ''hi'') \<lparr> reactions := Some [] \<rparr>)]"
    "next_addr room_open = 1"
    by (simp_all add: room_open_state)
  have oid: "map obj_id (messages room_open) = [''m1'']"
    by (simp add: old text_message_def)
  note inst = poll_result_is_snapshot [of response room_open, unfolded Let_def,
      folded out_def]
  from inst have a: "map obj_id out = map msg_id response"
    and b: "\<forall>i \<in> {0..<length response}.
              out ! i = (next_addr room_open + i, normalized_version (response ! i)) \<or>
              out ! i \<in> set (messages room_open)"
    and c: "\<forall>e \<in> set (messages room_open). obj_id e \<notin> set (map msg_id response) \<longrightarrow>
              e \<notin> set out"
    by blast+
  have b': "out ! i = (next_addr room_open + i, normalized_version (response ! i)) \<or>
      out ! i \<in> set (messages room_open)" if "i < length response" for i
    using b that by simp
  from a ids have len: "length out = 2"
    by (metis length_map list.size(3,4) One_nat_def Suc_1 add.commute plus_1_eq_Suc)
  have o0: "out ! 0 = (1, normalized_version (response ! 0))"
  proof -
    have "out ! 0 = (next_addr room_open + 0, normalized_version (response ! 0)) \<or>
        out ! 0 \<in> set (messages room_open)"
      by (rule b') (simp add: response_def)
    moreover have "obj_id (out ! 0) = ''m2''"
      using a ids len by (metis nth_map nth_Cons_0 zero_less_numeral)
    ultimately show ?thesis by (auto simp: old text_message_def)
  qed
  have o1: "out ! 1 = (2, normalized_version (response ! 1))"
  proof -
    have "out ! 1 = (next_addr room_open + 1, normalized_version (response ! 1)) \<or>
        out ! 1 \<in> set (messages room_open)"
      by (rule b') (simp add: response_def)
    moreover have "obj_id (out ! 1) = ''m3''"
    proof -
      have "map obj_id out ! 1 = ''m3''" using a ids by simp
      then show ?thesis using len by simp
    qed
    ultimately show ?thesis by (auto simp: old text_message_def)
  qed
  have out_eq: "out = [(1, (text_message ''m2'' ''u2'' ''r1'' ''yo'') \<lparr> reactions := Some [] \<rparr>),
      (2, (text_message ''m3'' ''u4'' ''r1'' ''ok'') \<lparr> reactions := Some [] \<rparr>)]"
  proof -
    from len obtain x y where xy: "out = [x, y]"
      by (metis (no_types) length_0_conv length_Suc_conv numeral_2_eq_2)
    with o0 o1 show ?thesis
      by (simp add: response_def normalized_text_message)
  qed
  from c have gone: "(0, (text_message ''m1'' ''u2'' ''r1'' ''hi'') \<lparr> reactions := Some [] \<rparr>) \<notin> set out"
    by (simp add: old ids text_message_def)
  have closed: "messages (closeConversation room_open) = []"
    by (rule messages_closeConversation)
  have rq2: "fetchMessages_request (closeConversation room_open) = None"
    by (simp add: room_open_state closeConversation_def selection_effects_def
        fetchMessages_request_def has_id_def activeNotificationKey_def clearUnreadForKey_def
        Let_def)
  from poll_result_is_snapshot [of "[text_message ''m1'' ''u2'' ''r1'' ''hi'']"
      "closeConversation room_open"]
  have late: "map obj_id (messages (fetchMessages [text_message ''m1'' ''u2'' ''r1'' ''hi'']
      (closeConversation room_open))) = [''m1'']"
    by (simp add: Let_def text_message_def)
  show ?thesis
    using rq oid out_eq gone closed rq2 late
    unfolding out_def response_def by simp
qed

text \<open>The state of the example, the same message pushed again, and a poll that returns it
  together with a new message.\<close>

theorem message_ids_stay_distinct_witness:
  "list_all snapshot_ok
     [SelectRoom ''r1'', NewMessage (text_message ''m1'' ''u2'' ''r1'' ''hi'') True] \<and>
   map obj_id (messages room_open) = [''m1''] \<and>
   set_has ''m1'' (processedRealtimeMessageIds room_open) \<and>
   appendRealtimeMessage (text_message ''m1'' ''u2'' ''r1'' ''hi'') room_open = room_open \<and>
   onNewMessage (text_message ''m1'' ''u2'' ''r1'' ''hi'') False room_open = (room_open, []) \<and>
   distinct (map obj_id (reconcileMessages (next_addr room_open) (messages room_open)
      [text_message ''m1'' ''u2'' ''r1'' ''hi'', text_message ''m2'' ''u2'' ''r1'' ''yo'']))"
proof -
  define m1 where "m1 = text_message ''m1'' ''u2'' ''r1'' ''hi''"
  define m2 where "m2 = text_message ''m2'' ''u2'' ''r1'' ''yo''"
  have ok: "\<forall>ev \<in> set [SelectRoom ''r1'', NewMessage m1 True]. snapshot_ok ev" by simp
  have s: "run (initial_chat ''me'') [SelectRoom ''r1'', NewMessage m1 True] = room_open"
    by (simp add: room_open_def m1_def)
  have ids: "map obj_id (messages room_open) = [''m1'']"
    by (simp add: room_open_state text_message_def)
  have ex: "\<exists>existing \<in> set (messages room_open). obj_id existing = msg_id m1"
    by (simp add: room_open_state m1_def text_message_def)
  have seen: "set_has (msg_id m1) (processedRealtimeMessageIds room_open)"
    by (simp add: room_open_state m1_def text_message_def set_has_def)
  have seen': "set_has ''m1'' (processedRealtimeMessageIds room_open)"
    by (simp add: room_open_state set_has_def)
  have dr: "distinct (map msg_id [m1, m2])"
    by (simp add: m1_def m2_def text_message_def)
  from message_ids_stay_distinct [OF ok, of "''me''" "''m1''" m1 "[m1, m2]" False] ex seen dr
  have "appendRealtimeMessage m1 room_open = room_open \<and>
        onNewMessage m1 False room_open = (room_open, []) \<and>
        distinct (map obj_id (reconcileMessages (next_addr room_open) (messages room_open) [m1, m2]))"
    unfolding s Let_def by blast
  with ok ids seen' show ?thesis unfolding m1_def m2_def by (simp add: list_all_iff)
qed



lemma many_ids_distinct: "distinct many_ids"
proof -
  have "inj_on (\<lambda>n. replicate (Suc n) CHR ''x'') (set [0..<500])"
  proof (rule inj_onI)
    fix n m :: nat
    assume "replicate (Suc n) CHR ''x'' = replicate (Suc m) CHR ''x''"
    then have "length (replicate (Suc n) CHR ''x'') = length (replicate (Suc m) CHR ''x'')"
      by (rule arg_cong)
    then show "n = m" by simp
  qed
  then show ?thesis by (simp add: many_ids_def distinct_map)
qed

lemma many_ids_length: "length many_ids = 500"
  by (simp add: many_ids_def)

lemma many_ids_nonempty: "[] \<notin> set many_ids"
  by (auto simp: many_ids_def)

lemma many_ids_new: "''new'' \<notin> set many_ids"
proof
  assume "''new'' \<in> set many_ids"
  then obtain n where "''new'' = replicate (Suc n) CHR ''x''"
    by (auto simp: many_ids_def)
  then have "hd ''new'' = hd (replicate (Suc n) CHR ''x'')" by (rule arg_cong)
  then show False by simp
qed

lemma run_Cons: "run s (ev # evs) = run (step s ev) evs"
  by (simp add: run_def)

lemma run_snoc: "run s (evs @ [ev]) = step (run s evs) ev"
  by (simp add: run_def)

lemma run_pushes:
  assumes "distinct (processedRealtimeMessageIds s @ ids)" and "[] \<notin> set ids"
    and "length (processedRealtimeMessageIds s @ ids) \<le> 500"
  shows "processedRealtimeMessageIds
           (run s (map (\<lambda>i. NewMessage (text_message i a b c) f) ids)) =
         processedRealtimeMessageIds s @ ids"
  using assms
proof (induction ids arbitrary: s)
  case Nil
  then show ?case by (simp add: run_def)
next
  case (Cons i ids)
  define s1 where "s1 = step s (NewMessage (text_message i a b c) f)"
  have p: "processedRealtimeMessageIds s1 = processedRealtimeMessageIds s @ [i]"
    using Cons.prems
    by (auto simp: s1_def processed_onNewMessage text_message_def evict_def)
  have ih: "processedRealtimeMessageIds (run s1 (map (\<lambda>i. NewMessage (text_message i a b c) f) ids)) =
        processedRealtimeMessageIds s1 @ ids"
    using Cons.prems by (intro Cons.IH) (simp_all add: p)
  have "run s (map (\<lambda>i. NewMessage (text_message i a b c) f) (i # ids)) =
        run s1 (map (\<lambda>i. NewMessage (text_message i a b c) f) ids)"
    by (simp only: list.map run_Cons s1_def)
  with ih p show ?case by simp
qed

text \<open>After 500 pushes with distinct ids the cache is full; the next new id evicts the
  first one, \<^verbatim>\<open>x\<close>.\<close>

theorem processed_cache_bounded_witness:
  "processedRealtimeMessageIds (run (initial_chat ''me'') many_pushes) = many_ids \<and>
   length (processedRealtimeMessageIds (run (initial_chat ''me'') many_pushes)) = 500 \<and>
   msg_id (text_message ''new'' ''u2'' ''r1'' ''hi'') \<noteq> [] \<and>
   \<not> set_has (msg_id (text_message ''new'' ''u2'' ''r1'' ''hi''))
       (processedRealtimeMessageIds (run (initial_chat ''me'') many_pushes)) \<and>
   hd many_ids = ''x'' \<and>
   processedRealtimeMessageIds
     (fst (onNewMessage (text_message ''new'' ''u2'' ''r1'' ''hi'') True
             (run (initial_chat ''me'') many_pushes))) = tl many_ids @ [''new'']"
proof -
  define s where "s = run (initial_chat ''me'') many_pushes"
  define m where "m = text_message ''new'' ''u2'' ''r1'' ''hi''"
  have c: "processedRealtimeMessageIds s = many_ids"
    unfolding s_def many_pushes_def
    using run_pushes [of "initial_chat ''me''" many_ids "''u2''" "''r1''" "''hi''" True]
    by (simp add: initial_chat_def many_ids_distinct many_ids_nonempty many_ids_length)
  have l: "length (processedRealtimeMessageIds s) = 500"
    by (simp add: c many_ids_length)
  have i: "msg_id m = ''new''" by (simp add: m_def text_message_def)
  have n: "\<not> set_has (msg_id m) (processedRealtimeMessageIds s)"
    by (simp add: c i set_has_def many_ids_new)
  have h: "hd many_ids = ''x''"
    by (simp add: many_ids_def upt_conv_Cons [of 0 500])
  from processed_cache_bounded [of "''me''" many_pushes m True] l n i
  obtain oldest rest where "processedRealtimeMessageIds s = oldest # rest"
    and "processedRealtimeMessageIds (fst (onNewMessage m True s)) = rest @ [msg_id m]"
    unfolding Let_def s_def [symmetric] by auto
  then have "processedRealtimeMessageIds (fst (onNewMessage m True s)) = tl many_ids @ [''new'']"
    using c i by (metis list.sel(3))
  with c l i n h show ?thesis
    unfolding s_def m_def by simp
qed

text \<open>With the room \<^verbatim>\<open>r1\<close> open, a direct message from \<^verbatim>\<open>u2\<close> creates the entry
  \<^verbatim>\<open>dm:u2\<close> with count 1; opening the conversation with \<^verbatim>\<open>u2\<close> removes the entry.\<close>

theorem unread_counter_tracks_inactive_witness:
  "msg_id (text_message ''m9'' ''u2'' ''me'' ''yo'') = ''m9'' \<and>
   \<not> set_has ''m9'' (processedRealtimeMessageIds room_open) \<and>
   getMessageNotificationKey (currentUserId room_open)
     (text_message ''m9'' ''u2'' ''me'' ''yo'') = ''dm:u2'' \<and>
   activeNotificationKeyRef room_open = ''room:r1'' \<and>
   unreadCounts room_open ''dm:u2'' = None \<and>
   unreadCounts (fst (onNewMessage (text_message ''m9'' ''u2'' ''me'' ''yo'') True room_open))
     ''dm:u2'' = Some 1 \<and>
   activeNotificationKeyRef
     (selectUser ''u2'' (fst (onNewMessage (text_message ''m9'' ''u2'' ''me'' ''yo'') True room_open))) =
     ''dm:u2'' \<and>
   unreadCounts
     (selectUser ''u2'' (fst (onNewMessage (text_message ''m9'' ''u2'' ''me'' ''yo'') True room_open)))
     ''dm:u2'' = None"
proof -
  define m where "m = text_message ''m9'' ''u2'' ''me'' ''yo''"
  define evs where
    "evs = [SelectRoom ''r1'', NewMessage (text_message ''m1'' ''u2'' ''r1'' ''hi'') True]"
  have s: "run (initial_chat ''me'') evs = room_open"
    by (simp add: room_open_def evs_def)
  have s2: "run (initial_chat ''me'') (evs @ [NewMessage m True]) = fst (onNewMessage m True room_open)"
    by (simp add: run_snoc s)
  have k: "getMessageNotificationKey (currentUserId room_open) m = ''dm:u2''"
    by (simp add: room_open_state m_def text_message_def getMessageNotificationKey_def
        buildDmNotificationKey_def)
  have r: "activeNotificationKeyRef room_open = ''room:r1''"
    and u: "unreadCounts room_open ''dm:u2'' = None"
    and p: "\<not> set_has (msg_id m) (processedRealtimeMessageIds room_open)"
    and i: "msg_id m \<noteq> []"
    by (simp_all add: room_open_state m_def text_message_def set_has_def)
  from unread_counter_tracks_inactive [of "''me''" evs m True "''r2''" "''u2''"] k r u p i
  have one: "unreadCounts (fst (onNewMessage m True room_open)) ''dm:u2'' = Some 1"
    unfolding Let_def s by simp
  from unread_counter_tracks_inactive [of "''me''" "evs @ [NewMessage m True]" m True "''r2''" "''u2''"]
  have two: "activeNotificationKeyRef (selectUser ''u2'' (fst (onNewMessage m True room_open))) =
        buildDmNotificationKey ''u2'' \<and>
      unreadCounts (selectUser ''u2'' (fst (onNewMessage m True room_open)))
        (buildDmNotificationKey ''u2'') = None"
    unfolding Let_def s2 by simp
  have i': "msg_id m = ''m9''" by (simp add: m_def text_message_def)
  from k r u one two i' p show ?thesis
    unfolding m_def by (simp add: buildDmNotificationKey_def)
qed

lemma replying_state:
  "replying =
     \<lparr> currentUserId = ''me'', selectedRoom = Some ''x1'', selectedUser = None,
       messages = [(0, (text_message ''m1'' ''u2'' ''x1'' ''hi'') \<lparr> reactions := Some [] \<rparr>)],
       replyToMessage =
         Some \<lparr> reply_id = ''m1'', reply_senderUserId = StrRef ''u2'',
                reply_messageContent = ''hi'', reply_createdAt = ''2024-05-01T10:00:00Z'' \<rparr>,
       unreadCounts = [''dm:x1'' \<mapsto> 1],
       activeNotificationKeyRef = ''room:x1'',
       processedRealtimeMessageIds = [''m1'', ''m2''], next_addr = 1 \<rparr>"
  by (simp add: replying_def chat_defs handleReplyToMessage_def falsy_def)

text \<open>
  The room \<^verbatim>\<open>x1\<close> is open with one message, the user is composing a reply to it, and a
  direct message of the user \<^verbatim>\<open>x1\<close> is counted as unread. Clearing the target \<^verbatim>\<open>x1\<close>
  empties the list, dismisses the reply and removes the unread entry of \<^verbatim>\<open>dm:x1\<close>.
  Clearing another target, \<^verbatim>\<open>zz\<close>, leaves the list, the reply and that entry as they are.
\<close>

theorem conversation_cleared_effect_witness:
  "''x1'' \<noteq> [] \<and> ''zz'' \<noteq> [] \<and>
   positive_counts replying \<and>
   map obj_id (messages replying) = [''m1''] \<and>
   replyToMessage replying =
     Some \<lparr> reply_id = ''m1'', reply_senderUserId = StrRef ''u2'',
            reply_messageContent = ''hi'', reply_createdAt = ''2024-05-01T10:00:00Z'' \<rparr> \<and>
   unreadCounts replying ''dm:x1'' = Some 1 \<and>
   activeNotificationKeyRef replying = ''room:x1'' \<and>
   messages (onConversationCleared ''x1'' replying) = [] \<and>
   replyToMessage (onConversationCleared ''x1'' replying) = None \<and>
   unreadCounts (onConversationCleared ''x1'' replying) ''dm:x1'' = None \<and>
   unreadCounts (onConversationCleared ''x1'' replying) ''room:x1'' = None \<and>
   map obj_id (messages (onConversationCleared ''zz'' replying)) = [''m1''] \<and>
   replyToMessage (onConversationCleared ''zz'' replying) =
     Some \<lparr> reply_id = ''m1'', reply_senderUserId = StrRef ''u2'',
            reply_messageContent = ''hi'', reply_createdAt = ''2024-05-01T10:00:00Z'' \<rparr> \<and>
   unreadCounts (onConversationCleared ''zz'' replying) ''dm:x1'' = Some 1"
proof -
  have h: "''x1'' \<noteq> []" and h': "''zz'' \<noteq> []" by simp_all
  have pos: "positive_counts replying"
    unfolding replying_def by (rule positive_counts_run)
  have before: "map obj_id (messages replying) = [''m1'']"
    "replyToMessage replying =
       Some \<lparr> reply_id = ''m1'', reply_senderUserId = StrRef ''u2'',
              reply_messageContent = ''hi'', reply_createdAt = ''2024-05-01T10:00:00Z'' \<rparr>"
    "unreadCounts replying ''dm:x1'' = Some 1"
    "activeNotificationKeyRef replying = ''room:x1''"
    by (simp_all add: replying_state text_message_def)
  from conversation_cleared_effect [OF h pos] before(4)
  have one: "messages (onConversationCleared ''x1'' replying) = [] \<and>
        replyToMessage (onConversationCleared ''x1'' replying) = None \<and>
        unreadCounts (onConversationCleared ''x1'' replying) ''dm:x1'' = None \<and>
        unreadCounts (onConversationCleared ''x1'' replying) ''room:x1'' = None"
    unfolding Let_def
    by (simp add: buildRoomNotificationKey_def buildDmNotificationKey_def)
  from conversation_cleared_effect [OF h' pos] before(4)
  have two: "messages (onConversationCleared ''zz'' replying) = messages replying \<and>
        replyToMessage (onConversationCleared ''zz'' replying) = replyToMessage replying \<and>
        unreadCounts (onConversationCleared ''zz'' replying) ''dm:x1'' =
          unreadCounts replying ''dm:x1''"
    unfolding Let_def
    by (simp add: buildRoomNotificationKey_def buildDmNotificationKey_def)
  from h h' pos before one two show ?thesis by simp
qed

subsection \<open>A redelivery after eviction\<close>

lemma run_append: "run s (evs @ evs') = run (run s evs) evs'"
  by (simp add: run_def)

lemma onNewMessage_elsewhere:
  assumes "getMessageNotificationKey (currentUserId s) m \<noteq> activeNotificationKeyRef s"
  shows "messages (fst (onNewMessage m f s)) = messages s"
    and "next_addr (fst (onNewMessage m f s)) = next_addr s"
  using assms by (simp_all add: onNewMessage_def Let_def)

lemma onNewMessage_active:
  assumes "msg_id m \<noteq> []" and "msg_id m \<notin> set (processedRealtimeMessageIds s)"
    and "getMessageNotificationKey (currentUserId s) m = activeNotificationKeyRef s"
    and "activeNotificationKeyRef s \<noteq> []"
    and "msg_id m \<notin> obj_id ` set (messages s)"
  shows "messages (fst (onNewMessage m f s)) = messages s @ [(next_addr s, normalizeMessage m)]"
proof -
  from assms(5) have "\<not> (\<exists>existing \<in> set (messages s). obj_id existing = msg_id m)"
    by (metis imageI)
  with assms(1-4) show ?thesis
    by (simp add: onNewMessage_def Let_def set_has_def appendRealtimeMessage_def)
qed

lemma pushes_elsewhere:
  assumes "currentUserId s = ''me''" and "activeNotificationKeyRef s = ''room:r1''"
    and "distinct (processedRealtimeMessageIds s @ ids)" and "[] \<notin> set ids"
    and "length (processedRealtimeMessageIds s @ ids) \<le> 500"
  shows "messages (run s (map (\<lambda>i. NewMessage (text_message i ''u2'' ''r2'' ''hi'') True) ids)) =
           messages s \<and>
         next_addr (run s (map (\<lambda>i. NewMessage (text_message i ''u2'' ''r2'' ''hi'') True) ids)) =
           next_addr s \<and>
         currentUserId (run s (map (\<lambda>i. NewMessage (text_message i ''u2'' ''r2'' ''hi'') True) ids)) =
           ''me'' \<and>
         activeNotificationKeyRef
           (run s (map (\<lambda>i. NewMessage (text_message i ''u2'' ''r2'' ''hi'') True) ids)) =
           ''room:r1''"
  using assms
proof (induction ids arbitrary: s)
  case Nil
  then show ?case by (simp add: run_def)
next
  case (Cons i ids)
  define s1 where "s1 = step s (NewMessage (text_message i ''u2'' ''r2'' ''hi'') True)"
  have k: "getMessageNotificationKey (currentUserId s) (text_message i ''u2'' ''r2'' ''hi'') \<noteq>
      activeNotificationKeyRef s"
    using Cons.prems(1,2)
    by (simp add: getMessageNotificationKey_def text_message_def Let_def
        buildRoomNotificationKey_def buildDmNotificationKey_def)
  have f: "messages s1 = messages s" "next_addr s1 = next_addr s"
    "currentUserId s1 = ''me''" "activeNotificationKeyRef s1 = ''room:r1''"
    using onNewMessage_elsewhere [OF k] Cons.prems(1,2) by (simp_all add: s1_def)
  have p: "processedRealtimeMessageIds s1 = processedRealtimeMessageIds s @ [i]"
    using Cons.prems
    by (auto simp: s1_def processed_onNewMessage text_message_def evict_def)
  have ih: "messages (run s1 (map (\<lambda>i. NewMessage (text_message i ''u2'' ''r2'' ''hi'') True) ids)) =
           messages s1 \<and>
         next_addr (run s1 (map (\<lambda>i. NewMessage (text_message i ''u2'' ''r2'' ''hi'') True) ids)) =
           next_addr s1 \<and>
         currentUserId (run s1 (map (\<lambda>i. NewMessage (text_message i ''u2'' ''r2'' ''hi'') True) ids)) =
           ''me'' \<and>
         activeNotificationKeyRef
           (run s1 (map (\<lambda>i. NewMessage (text_message i ''u2'' ''r2'' ''hi'') True) ids)) =
           ''room:r1''"
    using Cons.prems f(3,4) by (intro Cons.IH) (simp_all add: p)
  have "run s (map (\<lambda>i. NewMessage (text_message i ''u2'' ''r2'' ''hi'') True) (i # ids)) =
        run s1 (map (\<lambda>i. NewMessage (text_message i ''u2'' ''r2'' ''hi'') True) ids)"
    by (simp only: list.map run_Cons s1_def)
  with ih f show ?case by simp
qed

lemma many_ids_split: "many_ids = ''x'' # tl many_ids"
proof -
  have "many_ids \<noteq> []" using many_ids_length by auto
  moreover have "hd many_ids = ''x''"
    by (simp add: many_ids_def upt_conv_Cons [of 0 500])
  ultimately show ?thesis by (metis list.collapse)
qed

text \<open>The state the events of \<open>eviction_events\<close> lead to: the list holds \<^verbatim>\<open>new\<close> only, and
  the cache holds the 499 ids after \<^verbatim>\<open>x\<close> and \<^verbatim>\<open>new\<close>, but \<^verbatim>\<open>x\<close> no longer.\<close>

lemma eviction_state:
  "map obj_id (messages (run (initial_chat ''me'') eviction_events)) = [''new'']"
  "processedRealtimeMessageIds (run (initial_chat ''me'') eviction_events) =
     tl many_ids @ [''new'']"
  "currentUserId (run (initial_chat ''me'') eviction_events) = ''me''"
  "activeNotificationKeyRef (run (initial_chat ''me'') eviction_events) = ''room:r1''"
proof -
  define pushes where
    "pushes = map (\<lambda>i. NewMessage (text_message i ''u2'' ''r2'' ''hi'') True) (tl many_ids)"
  define s1 where
    "s1 = run (initial_chat ''me'')
            [SelectRoom ''r1'', NewMessage (text_message ''x'' ''u2'' ''r1'' ''hi'') True]"
  define s2 where "s2 = run s1 pushes"
  define s3 where "s3 = fetchMessages [] s2"
  define m where "m = text_message ''new'' ''u2'' ''r1'' ''hi''"
  define s4 where "s4 = fst (onNewMessage m True s3)"
  have all: "run (initial_chat ''me'') eviction_events = s4"
    unfolding eviction_events_def s4_def s3_def s2_def s1_def pushes_def m_def
    by (simp only: run_append run_snoc) (simp add: run_snoc [of _ "[e]" for e, simplified] run_def)
  have s1: "currentUserId s1 = ''me''" "activeNotificationKeyRef s1 = ''room:r1''"
    "processedRealtimeMessageIds s1 = [''x'']"
    by (simp_all add: s1_def chat_defs)
  have d: "distinct (''x'' # tl many_ids)" and ne: "[] \<notin> set (tl many_ids)"
    and l: "length (''x'' # tl many_ids) = 500"
    using many_ids_distinct many_ids_nonempty many_ids_length many_ids_split
    by (metis, metis list.set_intros(2), metis)
  have p2: "processedRealtimeMessageIds s2 = many_ids"
  proof -
    have "processedRealtimeMessageIds s2 = processedRealtimeMessageIds s1 @ tl many_ids"
      unfolding s2_def pushes_def
      using d ne l by (intro run_pushes) (simp_all add: s1)
    then show ?thesis using many_ids_split by (simp add: s1)
  qed
  have f2: "currentUserId s2 = ''me''" "activeNotificationKeyRef s2 = ''room:r1''"
    using pushes_elsewhere [of s1 "tl many_ids"] d ne l
    by (simp_all add: s1 s2_def pushes_def)
  have f3: "messages s3 = []" "currentUserId s3 = ''me''"
    "activeNotificationKeyRef s3 = ''room:r1''" "processedRealtimeMessageIds s3 = many_ids"
    by (simp_all add: s3_def fetchMessages_def reconcileMessages_def f2 p2)
  have mid: "msg_id m = ''new''" by (simp add: m_def text_message_def)
  have key: "getMessageNotificationKey (currentUserId s3) m = activeNotificationKeyRef s3"
    by (simp add: f3 m_def getMessageNotificationKey_def text_message_def Let_def
        buildRoomNotificationKey_def)
  have "messages s4 = messages s3 @ [(next_addr s3, normalizeMessage m)]"
    unfolding s4_def using key
    by (intro onNewMessage_active) (simp_all add: mid f3 many_ids_new)
  then have m4: "map obj_id (messages s4) = [''new'']"
    by (simp add: f3 msg_id_normalizeMessage mid)
  have "processedRealtimeMessageIds s4 = evict (many_ids @ [''new''])"
    by (simp add: s4_def processed_onNewMessage mid f3 many_ids_new)
  also have "\<dots> = tl (many_ids @ [''new''])"
    using many_ids_distinct many_ids_new many_ids_length by (simp add: evict_distinct)
  also have "\<dots> = tl many_ids @ [''new'']"
    by (subst (1 2) many_ids_split) simp
  finally have p4: "processedRealtimeMessageIds s4 = tl many_ids @ [''new'']" .
  have f4: "currentUserId s4 = ''me''" "activeNotificationKeyRef s4 = ''room:r1''"
    by (simp_all add: s4_def f3)
  show "map obj_id (messages (run (initial_chat ''me'') eviction_events)) = [''new'']"
    "processedRealtimeMessageIds (run (initial_chat ''me'') eviction_events) =
       tl many_ids @ [''new'']"
    "currentUserId (run (initial_chat ''me'') eviction_events) = ''me''"
    "activeNotificationKeyRef (run (initial_chat ''me'') eviction_events) = ''room:r1''"
    by (simp_all add: all m4 p4 f4)
qed

text \<open>
  Two ways to the same id twice. A snapshot that lists the same message twice puts two
  entries with one id into the list: the reconciler maps over the snapshot and removes
  nothing. And a message that was pushed and appended once is appended a second time when
  it is delivered again after 500 later ids have pushed its id out of the cache (the first
  object had left the list with an empty poll in between).
\<close>

theorem duplicate_id_counterexample:
  "map obj_id (messages (run (initial_chat ''me'')
      [SelectRoom ''r1'',
       Polled [text_message ''m1'' ''u2'' ''r1'' ''hi'', text_message ''m1'' ''u2'' ''r1'' ''hi'']])) =
     [''m1'', ''m1''] \<and>
   \<not> distinct (map obj_id (messages (run (initial_chat ''me'')
      [SelectRoom ''r1'',
       Polled [text_message ''m1'' ''u2'' ''r1'' ''hi'', text_message ''m1'' ''u2'' ''r1'' ''hi'']]))) \<and>
   map obj_id (messages (run (initial_chat ''me'')
      [SelectRoom ''r1'', NewMessage (text_message ''x'' ''u2'' ''r1'' ''hi'') True])) = [''x''] \<and>
   take 2 eviction_events =
     [SelectRoom ''r1'', NewMessage (text_message ''x'' ''u2'' ''r1'' ''hi'') True] \<and>
   map obj_id (messages (run (initial_chat ''me'') eviction_events)) = [''new''] \<and>
   \<not> set_has ''x'' (processedRealtimeMessageIds (run (initial_chat ''me'') eviction_events)) \<and>
   map obj_id (messages (fst (onNewMessage (text_message ''x'' ''u2'' ''r1'' ''hi'') True
      (run (initial_chat ''me'') eviction_events)))) = [''new'', ''x'']"
proof -
  define s where "s = run (initial_chat ''me'') eviction_events"
  define m where "m = text_message ''x'' ''u2'' ''r1'' ''hi''"
  have a: "map obj_id (messages (run (initial_chat ''me'')
      [SelectRoom ''r1'',
       Polled [text_message ''m1'' ''u2'' ''r1'' ''hi'', text_message ''m1'' ''u2'' ''r1'' ''hi'']])) =
     [''m1'', ''m1'']"
    by (simp add: chat_defs ids_reconcileMessages)
  have b: "map obj_id (messages (run (initial_chat ''me'')
      [SelectRoom ''r1'', NewMessage (text_message ''x'' ''u2'' ''r1'' ''hi'') True])) = [''x'']"
    by (simp add: chat_defs)
  have t: "take 2 eviction_events =
     [SelectRoom ''r1'', NewMessage (text_message ''x'' ''u2'' ''r1'' ''hi'') True]"
    by (simp add: eviction_events_def)
  have st: "map obj_id (messages s) = [''new'']"
    "processedRealtimeMessageIds s = tl many_ids @ [''new'']"
    "currentUserId s = ''me''" "activeNotificationKeyRef s = ''room:r1''"
    unfolding s_def by (rule eviction_state)+
  have x: "''x'' \<notin> set (tl many_ids)"
    using many_ids_distinct many_ids_split by (metis distinct.simps(2))
  have mid: "msg_id m = ''x''" by (simp add: m_def text_message_def)
  have nx: "\<not> set_has ''x'' (processedRealtimeMessageIds s)"
    using x by (simp add: st set_has_def)
  have key: "getMessageNotificationKey (currentUserId s) m = activeNotificationKeyRef s"
    by (simp add: st m_def getMessageNotificationKey_def text_message_def Let_def
        buildRoomNotificationKey_def)
  have notin: "msg_id m \<notin> obj_id ` set (messages s)"
  proof -
    have "obj_id ` set (messages s) = set (map obj_id (messages s))" by simp
    then show ?thesis by (simp only: st mid) simp
  qed
  have "messages (fst (onNewMessage m True s)) = messages s @ [(next_addr s, normalizeMessage m)]"
    using key nx notin by (intro onNewMessage_active) (simp_all add: mid st set_has_def)
  then have c: "map obj_id (messages (fst (onNewMessage m True s))) = [''new'', ''x'']"
    by (simp add: st msg_id_normalizeMessage mid)
  from a b t st(1) nx c show ?thesis
    unfolding s_def m_def by simp
qed



lemmas call_defs =
  calling_session_def queued_session_def ringing_session_def initial_call_session_def
  INITIAL_CALL_STATE_def offer_from_def answer_with_def ice_event_def ice_def
  well_formed_description_def hasActiveCall_def other_call_def remote_description_unset_def
  for_active_call_def outgoing_session_def units_def

lemma ringing_session_state:
  "ringing_session =
     (initial_call_session [])
       \<lparr> callState :=
           \<lparr> cs_status = Incoming, cs_callType = ''video'', cs_peerUserId = ''u3'',
             cs_peerName = ''Cy'', cs_callId = ''u3-7-xyz'', cs_error = '''' \<rparr>,
         pendingIncomingCallRef :=
           Some \<lparr> pending_fromUserId = ''u3'', pending_callType = ''video'',
                  pending_callId = ''u3-7-xyz'',
                  pending_offer = \<lparr> sd_type = ''offer'', sd_sdp = ''v=0'' \<rparr>,
                  pending_peerName = ''Cy'' \<rparr>,
         activeCallPeerIdRef := ''u3'', activeCallIdRef := ''u3-7-xyz'',
         activeCallTypeRef := ''video'' \<rparr>"
  by (simp add: ringing_session_def onCallOffer_def offer_from_def initial_call_session_def
      normalizeSessionDescription_def normalizeCallType_def resolvePeerName_def
      hasActiveCall_def Let_def)

text \<open>An offer without a sender id reaches an idle session, and an offer without sdp
  reaches a busy one: both are dropped.\<close>

theorem malformed_offer_dropped_witness:
  "offer_fromUserId (offer_from [] (Some ''v=0'')) = [] \<and>
   onCallOffer ''1714557600000'' ''k3j9qa'' (offer_from [] (Some ''v=0''))
     (initial_call_session []) = (initial_call_session [], []) \<and>
   \<not> well_formed_description (offer_offer (offer_from ''u4'' None)) \<and>
   hasActiveCall ringing_session \<and>
   onCallOffer ''1714557600000'' ''k3j9qa'' (offer_from ''u4'' None) ringing_session =
     (ringing_session, [])"
proof -
  have a: "offer_fromUserId (offer_from [] (Some ''v=0'')) = []"
    by (simp add: offer_from_def)
  have b: "\<not> well_formed_description (offer_offer (offer_from ''u4'' None))"
    by (simp add: offer_from_def well_formed_description_def)
  have c: "hasActiveCall ringing_session"
    by (simp add: ringing_session_state hasActiveCall_def)
  from a have a': "offer_fromUserId (offer_from [] (Some ''v=0'')) = [] \<or>
      \<not> well_formed_description (offer_offer (offer_from [] (Some ''v=0'')))" by simp
  from b have b': "offer_fromUserId (offer_from ''u4'' None) = [] \<or>
      \<not> well_formed_description (offer_offer (offer_from ''u4'' None))" by simp
  show ?thesis
    using a b c
      malformed_offer_dropped [OF a', of "''1714557600000''" "''k3j9qa''" "initial_call_session []"]
      malformed_offer_dropped [OF b', of "''1714557600000''" "''k3j9qa''" ringing_session]
    by simp
qed

text \<open>A second caller reaches a session that is already in a call: it gets
  \<^verbatim>\<open>end\<close> with reason \<^verbatim>\<open>busy\<close> for its own call id.\<close>

theorem busy_offer_rejected_witness:
  "hasActiveCall calling_session \<and>
   offer_fromUserId (offer_from ''u3'' (Some ''v=0'')) \<noteq> [] \<and>
   well_formed_description (offer_offer (offer_from ''u3'' (Some ''v=0''))) \<and>
   onCallOffer ''1714557600000'' ''k3j9qa'' (offer_from ''u3'' (Some ''v=0'')) calling_session =
     (calling_session, [Emit_call_end ''u3'' ''u3-7-xyz'' ''busy''])"
proof -
  have a: "hasActiveCall calling_session"
    by (simp add: call_defs)
  have b: "offer_fromUserId (offer_from ''u3'' (Some ''v=0'')) \<noteq> []"
    by (simp add: offer_from_def)
  have c: "well_formed_description (offer_offer (offer_from ''u3'' (Some ''v=0'')))"
    by (simp add: offer_from_def well_formed_description_def)
  show ?thesis
    using a b c busy_offer_rejected [OF a b c, of "''1714557600000''" "''k3j9qa''"]
    by (simp add: offer_from_def)
qed

text \<open>The same busy session receives an offer whose sdp is the empty string: nothing is
  emitted, so the caller gets no \<^verbatim>\<open>busy\<close>.\<close>

theorem busy_malformed_offer_counterexample:
  "hasActiveCall calling_session \<and>
   offer_fromUserId (offer_from ''u3'' (Some [])) = ''u3'' \<and>
   onCallOffer ''1714557600000'' ''k3j9qa'' (offer_from ''u3'' (Some [])) calling_session =
     (calling_session, [])"
  by (simp add: onCallOffer_def offer_from_def normalizeSessionDescription_def
      calling_session_def initial_call_session_def hasActiveCall_def Let_def)

text \<open>
  Four events reach the caller before the answer: candidate \<^verbatim>\<open>a\<close>; a candidate of two
  spaces; a candidate that is one no-break space; and, without call id, candidate \<^verbatim>\<open>b\<close>
  between a byte order mark, an em space and a paragraph separator. The queue holds \<^verbatim>\<open>a\<close>
  and \<^verbatim>\<open>b\<close>, and no call is made; once the connection has a remote description, the flush
  empties the queue and calls \<^verbatim>\<open>addIceCandidate\<close> with \<^verbatim>\<open>a\<close>, then with \<^verbatim>\<open>b\<close>.
\<close>

theorem ice_candidates_queued_in_order_witness:
  "list_all (\<lambda>p. for_active_call (ice_callId p) calling_session)
     [ice_event ''me-1-abc'' (units ''a''), ice_event ''me-1-abc'' [0x20, 0x20],
      ice_event ''me-1-abc'' [0xA0],
      ice_event [] ([0xFEFF, 0x2003] @ units ''b'' @ [0x2029])] \<and>
   remote_description_unset calling_session \<and>
   onCallIceCandidates (\<lambda>c. True)
     [ice_event ''me-1-abc'' (units ''a''), ice_event ''me-1-abc'' [0x20, 0x20],
      ice_event ''me-1-abc'' [0xA0],
      ice_event [] ([0xFEFF, 0x2003] @ units ''b'' @ [0x2029])]
     calling_session =
     (calling_session \<lparr> queuedIceCandidatesRef := [ice (units ''a''), ice (units ''b'')] \<rparr>, []) \<and>
   flushQueuedIceCandidates
     (calling_session
        \<lparr> queuedIceCandidatesRef := [ice (units ''a''), ice (units ''b'')],
          peerConnectionRef :=
            Some \<lparr> remoteDescription = Some \<lparr> sd_type = ''answer'', sd_sdp = ''v=0'' \<rparr> \<rparr> \<rparr>) =
     (calling_session
        \<lparr> peerConnectionRef :=
            Some \<lparr> remoteDescription = Some \<lparr> sd_type = ''answer'', sd_sdp = ''v=0'' \<rparr> \<rparr> \<rparr>,
      [AddIceCandidate (ice (units ''a'')), AddIceCandidate (ice (units ''b''))])"
proof -
  define payloads where
    "payloads = [ice_event ''me-1-abc'' (units ''a''), ice_event ''me-1-abc'' [0x20, 0x20],
      ice_event ''me-1-abc'' [0xA0],
      ice_event [] ([0xFEFF, 0x2003] @ units ''b'' @ [0x2029])]"
  define pc where
    "pc = \<lparr> remoteDescription = Some \<lparr> sd_type = ''answer'', sd_sdp = ''v=0'' \<rparr> \<rparr>"
  define queued where "queued = [ice (units ''a''), ice (units ''b'')]"
  have a: "\<forall>p \<in> set payloads. for_active_call (ice_callId p) calling_session"
    by (simp add: payloads_def call_defs)
  have b: "remote_description_unset calling_session"
    by (simp add: call_defs)
  have arrived: "List.map_filter (event_candidate (\<lambda>c. True)) payloads = queued"
    by (simp add: payloads_def queued_def List.map_filter_def event_candidate_def ice_event_def
        ice_def stripped_def white_def units_def)
  have q0: "queuedIceCandidatesRef calling_session = []"
    by (simp add: call_defs)
  have r: "remoteDescription pc \<noteq> None" by (simp add: pc_def)
  note inst = ice_candidates_queued_in_order [OF a b, of "\<lambda>c. True", unfolded Let_def arrived q0]
  have s1: "fst (onCallIceCandidates (\<lambda>c. True) payloads calling_session) =
        calling_session \<lparr> queuedIceCandidatesRef := queued \<rparr>"
    using inst [THEN conjunct1] by simp
  have c1: "snd (onCallIceCandidates (\<lambda>c. True) payloads calling_session) = []"
    using inst [THEN conjunct2, THEN conjunct1] .
  from s1 c1 have both: "onCallIceCandidates (\<lambda>c. True) payloads calling_session =
        (calling_session \<lparr> queuedIceCandidatesRef := queued \<rparr>, [])"
    by (metis prod.collapse)
  have fl: "flushQueuedIceCandidates
        ((fst (onCallIceCandidates (\<lambda>c. True) payloads calling_session))
           \<lparr> peerConnectionRef := Some pc \<rparr>) =
        ((fst (onCallIceCandidates (\<lambda>c. True) payloads calling_session))
           \<lparr> peerConnectionRef := Some pc, queuedIceCandidatesRef := [] \<rparr>,
         map AddIceCandidate queued)"
    using inst [THEN conjunct2, THEN conjunct2, rule_format, OF r] by simp
  have fl': "flushQueuedIceCandidates
        (calling_session \<lparr> queuedIceCandidatesRef := queued, peerConnectionRef := Some pc \<rparr>) =
        (calling_session \<lparr> peerConnectionRef := Some pc \<rparr>, map AddIceCandidate queued)"
    using fl by (simp only: s1) (simp add: calling_session_def initial_call_session_def)
  show ?thesis
    using a b both fl' unfolding payloads_def pc_def queued_def
    by (simp add: list_all_iff)
qed

text \<open>
  The caller's offer is out, two candidates are queued, the status is \<^verbatim>\<open>outgoing\<close>. An
  answer for another call id changes nothing. The answer for the caller's own call makes
  the handler call \<^verbatim>\<open>setRemoteDescription\<close> with it. When the browser has stored the
  description, the handler empties the queue and hands the two candidates over in order,
  and then the status becomes \<^verbatim>\<open>connecting\<close>; a session whose status is \<^verbatim>\<open>incoming\<close> keeps
  it. When the browser rejects the description, the session is idle again, with the
  error message, and peer, call id, queue, connection, local stream and mute flag are
  cleared.
\<close>

theorem answer_handling_witness:
  "activeCallIdRef outgoing_session = ''me-1-abc'' \<and>
   peerConnectionRef outgoing_session = Some \<lparr> remoteDescription = None \<rparr> \<and>
   queuedIceCandidatesRef outgoing_session = [ice (units ''a''), ice (units ''b'')] \<and>
   cs_status (callState outgoing_session) = Outgoing \<and>
   isMicMuted outgoing_session \<and> localStreamRef outgoing_session \<and>
   activeCallPeerIdRef outgoing_session = ''u2'' \<and>
   onCallAnswer (answer_with ''u9-0-zzz'' ''v=0'') outgoing_session = (outgoing_session, []) \<and>
   onCallAnswer (answer_with ''me-1-abc'' ''v=0'') outgoing_session =
     (outgoing_session, [SetRemoteDescription \<lparr> sd_type = ''answer'', sd_sdp = ''v=0'' \<rparr>]) \<and>
   onCallAnswer_resolved
     (outgoing_session
        \<lparr> peerConnectionRef :=
            Some (setRemoteDescription \<lparr> sd_type = ''answer'', sd_sdp = ''v=0'' \<rparr>
                    \<lparr> remoteDescription = None \<rparr>) \<rparr>) =
     (outgoing_session
        \<lparr> peerConnectionRef :=
            Some \<lparr> remoteDescription = Some \<lparr> sd_type = ''answer'', sd_sdp = ''v=0'' \<rparr> \<rparr>,
          queuedIceCandidatesRef := [] \<rparr>,
      [AddIceCandidate (ice (units ''a'')), AddIceCandidate (ice (units ''b''))]) \<and>
   callState (onCallAnswer_flushed outgoing_session) =
     \<lparr> cs_status = Connecting, cs_callType = ''audio'', cs_peerUserId = ''u2'',
       cs_peerName = ''Bo'', cs_callId = ''me-1-abc'', cs_error = [] \<rparr> \<and>
   cs_status (callState ringing_session) = Incoming \<and>
   onCallAnswer_flushed ringing_session = ringing_session \<and>
   onCallAnswer_rejected outgoing_session =
     (\<lparr> callState =
          \<lparr> cs_status = Idle, cs_callType = ''audio'', cs_peerUserId = [], cs_peerName = [],
            cs_callId = [], cs_error = ''Failed to connect call.'' \<rparr>,
        pendingIncomingCallRef = None, queuedIceCandidatesRef = [], activeCallPeerIdRef = [],
        activeCallIdRef = [], activeCallTypeRef = ''audio'', peerConnectionRef = None,
        localStreamRef = False, remoteStreamRef = False, isMicMuted = False,
        isCameraOff = False, usersRef = [] \<rparr>, [])"
proof -
  define answer where "answer = \<lparr> sd_type = ''answer'', sd_sdp = ''v=0'' \<rparr>"
  define pc where "pc = \<lparr> remoteDescription = (None :: session_description option) \<rparr>"
  define resumed where
    "resumed = outgoing_session \<lparr> peerConnectionRef := Some (setRemoteDescription answer pc) \<rparr>"
  have st: "activeCallIdRef outgoing_session = ''me-1-abc''"
    "peerConnectionRef outgoing_session = Some pc"
    "queuedIceCandidatesRef outgoing_session = [ice (units ''a''), ice (units ''b'')]"
    "cs_status (callState outgoing_session) = Outgoing"
    "isMicMuted outgoing_session" "localStreamRef outgoing_session"
    "activeCallPeerIdRef outgoing_session = ''u2''"
    "usersRef outgoing_session = []"
    by (simp_all add: outgoing_session_def calling_session_def initial_call_session_def pc_def)
  note other = answer_handling [of "answer_with ''u9-0-zzz'' ''v=0''" outgoing_session pc
      "''answer''" "''v=0''" resumed "setRemoteDescription answer pc" outgoing_session
      outgoing_session]
  from other st(1)
  have one: "onCallAnswer (answer_with ''u9-0-zzz'' ''v=0'') outgoing_session =
      (outgoing_session, [])"
    by (simp add: answer_with_def)
  note own = answer_handling [of "answer_with ''me-1-abc'' ''v=0''" outgoing_session pc
      "''answer''" "''v=0''" resumed "setRemoteDescription answer pc" outgoing_session
      outgoing_session]
  have pre: "(answer_callId (answer_with ''me-1-abc'' ''v=0'') = [] \<or>
       activeCallIdRef outgoing_session = [] \<or>
       answer_callId (answer_with ''me-1-abc'' ''v=0'') = activeCallIdRef outgoing_session) \<and>
      peerConnectionRef outgoing_session = Some pc \<and>
      answer_answer (answer_with ''me-1-abc'' ''v=0'') =
        Some \<lparr> raw_type = Some ''answer'', raw_sdp = Some ''v=0'' \<rparr> \<and>
      (''answer'' = ''offer'' \<or> ''answer'' = ''answer'') \<and> ''v=0'' \<noteq> []"
    by (simp add: st answer_with_def)
  from own pre
  have two: "onCallAnswer (answer_with ''me-1-abc'' ''v=0'') outgoing_session =
      (outgoing_session, [SetRemoteDescription \<lparr> sd_type = ''answer'', sd_sdp = ''v=0'' \<rparr>])"
    by blast
  have pre3: "peerConnectionRef resumed = Some (setRemoteDescription answer pc) \<and>
      remoteDescription (setRemoteDescription answer pc) \<noteq> None"
    by (simp add: resumed_def setRemoteDescription_def)
  from own pre3
  have "onCallAnswer_resolved resumed =
      (resumed \<lparr> queuedIceCandidatesRef := [] \<rparr>,
       map AddIceCandidate (queuedIceCandidatesRef resumed))"
    by blast
  then have three: "onCallAnswer_resolved resumed =
      (outgoing_session \<lparr> peerConnectionRef := Some \<lparr> remoteDescription = Some answer \<rparr>,
                          queuedIceCandidatesRef := [] \<rparr>,
       [AddIceCandidate (ice (units ''a'')), AddIceCandidate (ice (units ''b''))])"
    by (simp add: resumed_def st setRemoteDescription_def pc_def)
  from own have "onCallAnswer_flushed outgoing_session =
      outgoing_session \<lparr> callState :=
           (if cs_status (callState outgoing_session) = Incoming then callState outgoing_session
            else (callState outgoing_session) \<lparr> cs_status := Connecting \<rparr>) \<rparr>"
    by blast
  then have four: "callState (onCallAnswer_flushed outgoing_session) =
      \<lparr> cs_status = Connecting, cs_callType = ''audio'', cs_peerUserId = ''u2'',
        cs_peerName = ''Bo'', cs_callId = ''me-1-abc'', cs_error = [] \<rparr>"
    by (simp add: outgoing_session_def calling_session_def initial_call_session_def)
  have inc: "cs_status (callState ringing_session) = Incoming"
    by (simp add: ringing_session_state)
  from answer_handling [of "answer_with ''me-1-abc'' ''v=0''" outgoing_session pc
      "''answer''" "''v=0''" resumed "setRemoteDescription answer pc" ringing_session
      outgoing_session]
  have "onCallAnswer_flushed ringing_session =
      ringing_session \<lparr> callState :=
           (if cs_status (callState ringing_session) = Incoming then callState ringing_session
            else (callState ringing_session) \<lparr> cs_status := Connecting \<rparr>) \<rparr>"
    by blast
  with inc have five: "onCallAnswer_flushed ringing_session = ringing_session"
    by simp
  from own have six: "onCallAnswer_rejected outgoing_session =
     (\<lparr> callState =
          \<lparr> cs_status = Idle, cs_callType = ''audio'', cs_peerUserId = [], cs_peerName = [],
            cs_callId = [], cs_error = ''Failed to connect call.'' \<rparr>,
        pendingIncomingCallRef = None, queuedIceCandidatesRef = [], activeCallPeerIdRef = [],
        activeCallIdRef = [], activeCallTypeRef = ''audio'', peerConnectionRef = None,
        localStreamRef = False, remoteStreamRef = False, isMicMuted = False,
        isCameraOff = False, usersRef = [] \<rparr>, [])"
    by (simp add: st)
  show ?thesis
    using st(1-7) one two three four inc five six
    unfolding resumed_def answer_def pc_def by simp
qed

text \<open>Two answers for the active call id that are not applied: one with an empty sdp
  reaches the caller, whose connection keeps no remote description and whose queue keeps
  its candidate; a well-formed one reaches a session that is ringing and has no connection
  object. In both cases \<^verbatim>\<open>setRemoteDescription\<close> is not called and nothing changes.\<close>

theorem matching_answer_not_applied_counterexample:
  "activeCallIdRef queued_session = ''me-1-abc'' \<and>
   peerConnectionRef queued_session = Some \<lparr> remoteDescription = None \<rparr> \<and>
   queuedIceCandidatesRef queued_session = [ice (units ''a'')] \<and>
   onCallAnswer (answer_with ''me-1-abc'' []) queued_session = (queued_session, []) \<and>
   activeCallIdRef ringing_session = ''u3-7-xyz'' \<and>
   peerConnectionRef ringing_session = None \<and>
   onCallAnswer (answer_with ''u3-7-xyz'' ''v=0'') ringing_session = (ringing_session, [])"
  by (simp add: ringing_session_state onCallAnswer_def other_call_def answer_with_def
      normalizeSessionDescription_def queued_session_def calling_session_def
      initial_call_session_def Let_def)



subsection \<open>Addresses of the list objects\<close>

lemma addr_update_objs:
  "\<forall>e \<in> set ms. fst e < a \<Longrightarrow> \<forall>e \<in> set (update_objs f b ms). fst e < a \<or> (b \<le> fst e \<and> fst e < b + length ms)"
proof (induction ms arbitrary: b)
  case Nil
  then show ?case by simp
next
  case (Cons m ms)
  have "\<forall>e \<in> set (update_objs f (Suc b) ms). fst e < a \<or> (Suc b \<le> fst e \<and> fst e < Suc b + length ms)"
    using Cons.prems by (intro Cons.IH) simp
  then have "\<forall>e \<in> set (update_objs f (Suc b) ms). fst e < a \<or> (b \<le> fst e \<and> fst e < b + length (m # ms))"
    by auto
  moreover have "fst (case f (snd m) of None \<Rightarrow> m | Some m' \<Rightarrow> (b, m')) < a \<or>
      (b \<le> fst (case f (snd m) of None \<Rightarrow> m | Some m' \<Rightarrow> (b, m')) \<and>
       fst (case f (snd m) of None \<Rightarrow> m | Some m' \<Rightarrow> (b, m')) < b + length (m # ms))"
    using Cons.prems by (simp split: option.splits)
  ultimately show ?case by simp
qed

lemma addr_reconcile_from:
  "\<forall>e \<in> set prev. fst e < a \<Longrightarrow>
   \<forall>e \<in> set (reconcile_from (previousById prev) b ms). fst e < a \<or> (b \<le> fst e \<and> fst e < b + length ms)"
proof (induction ms arbitrary: b)
  case Nil
  then show ?case by simp
next
  case (Cons m ms)
  have "\<forall>e \<in> set (reconcile_from (previousById prev) (Suc b) ms).
          fst e < a \<or> (Suc b \<le> fst e \<and> fst e < Suc b + length ms)"
    using Cons.prems by (intro Cons.IH)
  then have rest: "\<forall>e \<in> set (reconcile_from (previousById prev) (Suc b) ms).
          fst e < a \<or> (b \<le> fst e \<and> fst e < b + length (m # ms))"
    by auto
  have "reconcile_one (previousById prev) b m = (b, normalized_version m) \<or>
        reconcile_one (previousById prev) b m \<in> set prev"
    using reconcile_one_alternatives [of "previousById prev" b m]
    by (auto dest: previousById_SomeD)
  then have "fst (reconcile_one (previousById prev) b m) < a \<or>
      (b \<le> fst (reconcile_one (previousById prev) b m) \<and>
       fst (reconcile_one (previousById prev) b m) < b + length (m # ms))"
    using Cons.prems by auto
  with rest show ?case by simp
qed

lemma inv_addr_same_or_empty:
  "messages t = messages s \<or> messages t = [] \<Longrightarrow> next_addr s \<le> next_addr t \<Longrightarrow>
   inv_addr s \<Longrightarrow> inv_addr t"
  by (fastforce simp: inv_addr_def)

lemma inv_addr_append: "inv_addr s \<Longrightarrow> inv_addr (appendRealtimeMessage m s)"
  by (auto simp: inv_addr_def appendRealtimeMessage_def)

lemma inv_addr_onNewMessage: "inv_addr s \<Longrightarrow> inv_addr (fst (onNewMessage m f s))"
  by (auto simp: inv_addr_def onNewMessage_def Let_def appendRealtimeMessage_def)

lemma inv_addr_fetch: "inv_addr s \<Longrightarrow> inv_addr (fetchMessages r s)"
proof -
  assume a: "inv_addr s"
  then have "\<forall>e \<in> set (messages s). fst e < next_addr s" by (simp add: inv_addr_def)
  from addr_reconcile_from [OF this, of "next_addr s" r]
  have "\<forall>e \<in> set (reconcileMessages (next_addr s) (messages s) r). fst e < next_addr s + length r"
    by (auto simp: reconcileMessages_def)
  with a show ?thesis by (simp add: fetchMessages_def inv_addr_def)
qed

lemma inv_addr_set_reactions: "inv_addr s \<Longrightarrow> inv_addr (set_reactions i rs s)"
proof -
  assume "inv_addr s"
  then have "\<forall>e \<in> set (messages s). fst e < next_addr s" by (simp add: inv_addr_def)
  from addr_update_objs [OF this] show ?thesis
    by (fastforce simp: set_reactions_def inv_addr_def)
qed

lemma inv_addr_remove: "inv_addr s \<Longrightarrow> inv_addr (remove_message i s)"
proof -
  assume "inv_addr s"
  then have "\<forall>e \<in> set (filter (\<lambda>m. obj_id m \<noteq> i) (messages s)). fst e < next_addr s"
    by (simp add: inv_addr_def)
  from addr_update_objs [OF this, of _ "next_addr s"]
  have step: "\<forall>e \<in> set (messages (remove_message i s)).
          fst e < next_addr s \<or>
          fst e < next_addr s + length (filter (\<lambda>m. obj_id m \<noteq> i) (messages s))"
    by (fastforce simp: remove_message_def)
  have len: "length (filter (\<lambda>m. obj_id m \<noteq> i) (messages s)) \<le> length (messages s)"
    by simp
  have "\<forall>e \<in> set (messages (remove_message i s)). fst e < next_addr s + length (messages s)"
  proof
    fix e assume "e \<in> set (messages (remove_message i s))"
    with step have "fst e < next_addr s \<or>
          fst e < next_addr s + length (filter (\<lambda>m. obj_id m \<noteq> i) (messages s))" by blast
    with len show "fst e < next_addr s + length (messages s)" by linarith
  qed
  moreover have "next_addr (remove_message i s) = next_addr s + length (messages s)"
    by (simp add: remove_message_def)
  ultimately show ?thesis
    by (simp add: inv_addr_def)
qed

lemma next_addr_clearUnreadForKey: "next_addr (clearUnreadForKey k s) = next_addr s"
  by simp

lemma next_addr_selection_effects [simp]: "next_addr (selection_effects b s) = next_addr s"
  by (simp add: selection_effects_def Let_def)

lemma next_addr_selection:
  "next_addr (removeRoomFromUi r s) = next_addr s"
  "next_addr (selectRoom r s) = next_addr s"
  "next_addr (selectUser u s) = next_addr s"
  "next_addr (closeConversation s) = next_addr s"
  by (simp_all add: removeRoomFromUi_def selectRoom_def selectUser_def closeConversation_def
      Let_def split: option.splits)

lemma inv_addr_step: "inv_addr s \<Longrightarrow> inv_addr (step s ev)"
proof -
  assume a: "inv_addr s"
  show ?thesis
  proof (cases ev)
    case (NewMessage m f)
    with a show ?thesis by (simp add: inv_addr_onNewMessage)
  next
    case (Polled r)
    with a show ?thesis by (simp add: inv_addr_fetch)
  next
    case (ReactionUpdated i rs)
    with a show ?thesis
      by (simp add: onReactionUpdated_def inv_addr_set_reactions split: option.splits)
  next
    case (MessageDeleted i)
    with a show ?thesis by (simp add: onMessageDeleted_def inv_addr_remove)
  next
    case (ConversationCleared t)
    with a show ?thesis by (simp add: onConversationCleared_def Let_def inv_addr_def)
  next
    case (RoomRemoved r)
    with a show ?thesis
      using messages_removeRoomFromUi [of r s]
      by (simp add: inv_addr_same_or_empty next_addr_selection)
  next
    case (SelectRoom r)
    with a show ?thesis
      using messages_selectRoom [of r s]
      by (simp add: inv_addr_same_or_empty next_addr_selection)
  next
    case (SelectUser u)
    with a show ?thesis
      using messages_selectUser [of u s]
      by (simp add: inv_addr_same_or_empty next_addr_selection)
  next
    case CloseConversation
    then show ?thesis by (simp add: inv_addr_def messages_closeConversation)
  next
    case (ReactToMessage i rs)
    with a show ?thesis by (simp add: handleReactToMessage_def inv_addr_set_reactions)
  next
    case (DeleteMessage i)
    with a show ?thesis by (simp add: handleDeleteMessage_def inv_addr_remove)
  next
    case ClearActiveConversation
    with a show ?thesis by (simp add: handleClearActiveConversation_def Let_def inv_addr_def)
  next
    case (ReplyToMessage m)
    with a show ?thesis by (simp add: handleReplyToMessage_def inv_addr_def)
  next
    case DismissReply
    with a show ?thesis by (simp add: dismissReply_def inv_addr_def)
  qed
qed

text \<open>Along every run the objects of the list lie below the allocation counter, so the
  object a reconcile cycle or an append allocates is none of them.\<close>

lemma addresses_below_counter:
  "\<forall>e \<in> set (messages (run (initial_chat uid) evs)). fst e < next_addr (run (initial_chat uid) evs)"
proof -
  have "inv_addr s \<Longrightarrow> inv_addr (run s evs)" for s
    unfolding run_def by (induction evs arbitrary: s) (auto simp: inv_addr_step)
  moreover have "inv_addr (initial_chat uid)"
    by (simp add: inv_addr_def initial_chat_def)
  ultimately show ?thesis by (simp add: inv_addr_def)
qed

end
